theory Spec2Isabelle
  imports Complex_Main "HOL-Library.Word" "HOL-Library.Char_ord" "HOL-Library.List_Lexorder"
begin

unbundle bit_operations_syntax

section \<open>JavaScript values\<close>

text \<open>
  The values that flow through the repository helpers. A number is an integer (the doubles
  that are safe integers); an object is the list of its own properties in creation order,
  with distinct keys; \<open>JErr m\<close> is an \<open>Error\<close> object with message \<open>m\<close>. A thrown value
  is a \<open>jsval\<close>; a computation that can throw returns \<open>jsval + 'a\<close>, with \<open>Inl\<close> the
  thrown value.
\<close>

datatype jsval =
    JUndefined
  | JNull
  | JBool bool
  | JNum int
  | JStr string
  | JArr "jsval list"
  | JObj "(string \<times> jsval) list"
  | JErr string

text \<open>\<open>Boolean(v)\<close>, the truthiness used by \<open>!v\<close>, \<open>if (v)\<close> and \<open>filter(Boolean)\<close>.\<close>

fun truthy :: "jsval \<Rightarrow> bool" where
  "truthy JUndefined = False"
| "truthy JNull = False"
| "truthy (JBool b) = b"
| "truthy (JNum n) = (n \<noteq> 0)"
| "truthy (JStr s) = (s \<noteq> [])"
| "truthy (JArr xs) = True"
| "truthy (JObj kvs) = True"
| "truthy (JErr m) = True"

text \<open>\<open>typeof v === "object"\<close> (true of \<open>null\<close> and of arrays too).\<close>

fun typeof_object :: "jsval \<Rightarrow> bool" where
  "typeof_object JNull = True"
| "typeof_object (JArr xs) = True"
| "typeof_object (JObj kvs) = True"
| "typeof_object (JErr m) = True"
| "typeof_object v = False"

text \<open>\<open>k in v\<close> and \<open>v.k\<close> for the property names the helpers read (none of them is
  inherited from a prototype). Reading a property of a value without it gives \<open>undefined\<close>.\<close>

fun has_prop :: "string \<Rightarrow> jsval \<Rightarrow> bool" where
  "has_prop k (JObj kvs) = (k \<in> set (map fst kvs))"
| "has_prop k v = False"

fun get_prop :: "jsval \<Rightarrow> string \<Rightarrow> jsval" where
  "get_prop (JObj kvs) k = (case map_of kvs k of Some v \<Rightarrow> v | None \<Rightarrow> JUndefined)"
| "get_prop v k = JUndefined"

text \<open>The result envelope: \<open>ok(data)\<close> and the value that \<open>fail(err, ctx)\<close> returns.\<close>

definition ok :: "jsval \<Rightarrow> jsval" where
  "ok d = JObj [(''status'', JBool True), (''data'', d)]"

definition fail_env :: "jsval \<Rightarrow> jsval" where
  "fail_env err = JObj [(''status'', JBool False), (''data'', err)]"

text \<open>A value is an envelope when it is an object with exactly the two properties
  \<open>status\<close> (a boolean) and \<open>data\<close>.\<close>

fun is_envelope :: "jsval \<Rightarrow> bool" where
  "is_envelope (JObj [(k1, JBool b), (k2, d)]) = (k1 = ''status'' \<and> k2 = ''data'')"
| "is_envelope v = False"

section \<open>TTL normalisation\<close>

text \<open>
  The argument of \<open>normalizeTTL\<close>: a number (finite, or one of the three non-finite
  doubles), a string, or anything else. A finite number is a rational here.
\<close>

datatype jsnumber = Finite rat | NaN | PosInfinity | NegInfinity

datatype ttl_value =
    TNumber jsnumber
  | TString string
  | TUndefined
  | TNull
  | TBoolean bool
  | TObject jsval

definition DEFAULT_TTL :: rat where
  "DEFAULT_TTL = 60000"

text \<open>\<open>String.prototype.trim\<close> strips white space and line terminators at both ends (the
  ones that fit a \<open>char\<close>); \<open>toLowerCase\<close> acts on the ASCII letters, the only ones
  the pattern can match.\<close>

definition is_space :: "char \<Rightarrow> bool" where
  "is_space c = (of_char c \<in> {9, 10, 11, 12, 13, 32, 160 :: nat})"

definition js_trim :: "string \<Rightarrow> string" where
  "js_trim s = rev (dropWhile is_space (rev (dropWhile is_space s)))"

definition lower_char :: "char \<Rightarrow> char" where
  "lower_char c =
     (case map_of (zip ''ABCDEFGHIJKLMNOPQRSTUVWXYZ'' ''abcdefghijklmnopqrstuvwxyz'') c of
        Some l \<Rightarrow> l
      | None \<Rightarrow> c)"

definition toLowerCase :: "string \<Rightarrow> string" where
  "toLowerCase s = map lower_char s"

definition is_digit :: "char \<Rightarrow> bool" where
  "is_digit c = (48 \<le> (of_char c :: nat) \<and> (of_char c :: nat) \<le> 57)"

text \<open>
  Numbers are IEEE 754 doubles. \<open>parseInt(ds, 10)\<close> on a string of decimal digits is the
  double nearest to the integer that the digits write, and \<open>value * multiplier\<close> the double
  nearest to the product: a natural number, or \<open>Infinity\<close> (here \<open>None\<close>).
  \<open>to_double n\<close> rounds a natural number to the 53 significant bits of a double, a tie
  going to the even significand; from \<open>2 ^ 1024\<close> on the result is \<open>Infinity\<close>.
\<close>

fun bitlen :: "nat \<Rightarrow> nat" where
  "bitlen n = (if n = 0 then 0 else Suc (bitlen (n div 2)))"

declare bitlen.simps [simp del]

definition to_double :: "nat \<Rightarrow> nat option" where
  "to_double n =
     (let e = bitlen n - 53;
          q = n div 2 ^ e;
          r = n mod 2 ^ e;
          m = (if 2 * r > 2 ^ e \<or> (2 * r = 2 ^ e \<and> odd q) then q + 1 else q) * 2 ^ e
      in if m \<ge> 2 ^ 1024 then None else Some m)"

definition digits_value :: "string \<Rightarrow> nat" where
  "digits_value ds = foldl (\<lambda>n c. 10 * n + (of_char c - 48)) 0 ds"

definition parseInt :: "string \<Rightarrow> nat option" where
  "parseInt ds = to_double (digits_value ds)"

text \<open>\<open>value * multiplier\<close>, for the value that \<open>parseInt\<close> gave.\<close>

definition times :: "nat option \<Rightarrow> nat \<Rightarrow> nat option" where
  "times v multiplier = (case v of None \<Rightarrow> None | Some n \<Rightarrow> to_double (n * multiplier))"

definition number_of :: "nat option \<Rightarrow> jsnumber" where
  "number_of v = (case v of None \<Rightarrow> PosInfinity | Some n \<Rightarrow> Finite (of_nat n))"

text \<open>\<open>s.match(/^(\d+)(ms|s|m|h|d)?$/)\<close>: the digits are the longest digit prefix (the
  units do not start with a digit), and what is left must be a unit or nothing. The result
  is the pair of groups.\<close>

definition match_ttl :: "string \<Rightarrow> (string \<times> string) option" where
  "match_ttl s =
     (let ds = takeWhile is_digit s; u = dropWhile is_digit s
      in if ds \<noteq> [] \<and> u \<in> set [[], ''ms'', ''s'', ''m'', ''h'', ''d''] then Some (ds, u) else None)"

definition normalizeTTL :: "ttl_value \<Rightarrow> jsnumber" where
  "normalizeTTL ttl =
     (case ttl of
        TNumber (Finite r) \<Rightarrow> Finite (if r < 0 then 0 else r)
      | TString t \<Rightarrow>
          (case match_ttl (toLowerCase (js_trim t)) of
             Some (ds, u) \<Rightarrow>
               (let value = parseInt ds; unit = (if u = [] then ''ms'' else u)
                in if unit = ''ms'' then number_of value
                   else if unit = ''s'' then number_of (times value 1000)
                   else if unit = ''m'' then number_of (times value 60000)
                   else if unit = ''h'' then number_of (times value 3600000)
                   else if unit = ''d'' then number_of (times value 86400000)
                   else Finite DEFAULT_TTL)
           | None \<Rightarrow> Finite DEFAULT_TTL)
      | _ \<Rightarrow> Finite DEFAULT_TTL)"

text \<open>The TTL grammar as the documentation gives it, \<open>^(\d+)(ms|s|m|h|d)?$\<close> matched
  case-insensitively against the string itself, and the multiplier of a unit.\<close>

definition ttl_grammar :: "string \<Rightarrow> (string \<times> string) option" where
  "ttl_grammar s = match_ttl (toLowerCase s)"

definition unit_multiplier :: "string \<Rightarrow> nat" where
  "unit_multiplier u =
     (if u = ''s'' then 1000 else if u = ''m'' then 60000 else if u = ''h'' then 3600000
      else if u = ''d'' then 86400000 else 1)"

section \<open>The write-argument parser\<close>

record write_arg =
  options :: jsval
  invalidateKeys :: jsval
  invalidatePrefixes :: jsval

definition is_string_or_array :: "jsval \<Rightarrow> bool" where
  "is_string_or_array v = (case v of JStr s \<Rightarrow> True | JArr xs \<Rightarrow> True | _ \<Rightarrow> False)"

definition recognized_key :: "jsval \<Rightarrow> bool" where
  "recognized_key arg =
     (has_prop ''session'' arg \<or> has_prop ''upsert'' arg \<or> has_prop ''writeConcern'' arg
      \<or> has_prop ''runValidators'' arg)"

definition parseWriteArg :: "jsval \<Rightarrow> write_arg" where
  "parseWriteArg arg =
     (if \<not> truthy arg then
        \<lparr>options = JUndefined, invalidateKeys = JUndefined, invalidatePrefixes = JUndefined\<rparr>
      else if is_string_or_array arg then
        \<lparr>options = JUndefined, invalidateKeys = arg, invalidatePrefixes = JUndefined\<rparr>
      else if typeof_object arg then
        \<lparr>options =
           (if has_prop ''options'' arg \<and> typeof_object (get_prop arg ''options'')
              then get_prop arg ''options''
            else if recognized_key arg then arg
            else JUndefined),
         invalidateKeys =
           (if has_prop ''invalidateKeys'' arg then get_prop arg ''invalidateKeys'' else JUndefined),
         invalidatePrefixes =
           (if has_prop ''invalidatePrefixes'' arg then get_prop arg ''invalidatePrefixes''
            else JUndefined)\<rparr>
      else
        \<lparr>options = JUndefined, invalidateKeys = JUndefined, invalidatePrefixes = JUndefined\<rparr>)"

section \<open>Hashing\<close>

text \<open>Digits of a number in a radix up to 36, as \<open>Number.prototype.toString(radix)\<close>
  writes a non-negative integer.\<close>

definition digit_char :: "nat \<Rightarrow> char" where
  "digit_char d = ''0123456789abcdefghijklmnopqrstuvwxyz'' ! (d mod 36)"

function to_radix :: "nat \<Rightarrow> nat \<Rightarrow> string" where
  "to_radix b n = (if b < 2 \<or> n < b then [digit_char n] else to_radix b (n div b) @ [digit_char (n mod b)])"
  by pat_completeness auto
termination
  by (relation "measure (\<lambda>(b, n). n)") auto

declare to_radix.simps [simp del]

definition show_int :: "int \<Rightarrow> string" where
  "show_int i = (if i < 0 then ''-'' @ to_radix 10 (nat (- i)) else to_radix 10 (nat i))"

text \<open>
  \<open>hash\<close>: \<open>h = (h * 33) ^ str.charCodeAt(i)\<close> from 5381. The XOR takes its operands to
  32-bit integers, so the loop is arithmetic on 32-bit words; \<open>h >>> 0\<close> reads the word as
  unsigned and \<open>toString(36)\<close> writes it in radix 36.
\<close>

definition hash_step :: "32 word \<Rightarrow> char \<Rightarrow> 32 word" where
  "hash_step h c = (h * 33) XOR of_nat (of_char c)"

definition hash :: "string \<Rightarrow> string" where
  "hash str = to_radix 36 (unat (foldl hash_step 5381 str))"

section \<open>The stable serialiser\<close>

text \<open>
  \<open>stableStringify\<close> tells objects apart by identity (its \<open>seen\<close> set), so the values it
  serialises live in a heap: a list of objects, an address being an index. A value is a
  primitive or a reference. An object is an array, a plain object, an instance of a class
  (with the class name and all its own property names), or an object whose \<open>toJSON\<close>
  method throws. Property lists are in creation order. Dates, sets, maps, buffers and typed
  arrays are outside this model. A reference outside the heap reads as an empty object.
\<close>

type_synonym addr = nat

datatype hval =
    HUndefined
  | HNull
  | HBool bool
  | HNum int
  | HStr string
  | HBigInt int
  | HSymbol string
  | HFunction string
  | HRef addr

datatype hobj =
    HArray "hval list"
  | HObject "(string \<times> hval) list"
  | HInstance string "(string \<times> hval) list"
  | HThrowing jsval

type_synonym heap = "hobj list"

definition deref :: "heap \<Rightarrow> addr \<Rightarrow> hobj" where
  "deref h a = (if a < length h then h ! a else HObject [])"

text \<open>The order in which the own string keys of an object are enumerated: array indices
  in ascending numeric order, then the other keys in creation order.\<close>

definition is_array_index :: "string \<Rightarrow> bool" where
  "is_array_index k =
     (k \<noteq> [] \<and> list_all is_digit k \<and> (k = ''0'' \<or> hd k \<noteq> CHR ''0'') \<and> digits_value k < 4294967295)"

definition own_keys :: "string list \<Rightarrow> string list" where
  "own_keys ks = sort_key digits_value (filter is_array_index ks) @ filter (\<lambda>k. \<not> is_array_index k) ks"

text \<open>\<open>obj[k] = v\<close> on a property list: an existing property keeps its place, a new one
  is created last. \<open>obj[k]\<close> reads it.\<close>

fun obj_assign :: "(string \<times> 'v) list \<Rightarrow> string \<Rightarrow> 'v \<Rightarrow> (string \<times> 'v) list" where
  "obj_assign [] k v = [(k, v)]"
| "obj_assign ((k', v') # kvs) k v = (if k' = k then (k, v) # kvs else (k', v') # obj_assign kvs k v)"

definition hget :: "(string \<times> hval) list \<Rightarrow> string \<Rightarrow> hval" where
  "hget kvs k = (case map_of kvs k of Some v \<Rightarrow> v | None \<Rightarrow> HUndefined)"

text \<open>The replacer's copy of a plain object,
  \<open>for (const k of Object.keys(val).sort()) sorted[k] = val[k]\<close>, and of a class instance,
  which starts from \<open>{__type: name}\<close> and takes \<open>Object.getOwnPropertyNames(val).sort()\<close>.
  The result is the property list of \<open>sorted\<close> in the order \<open>JSON.stringify\<close> then
  enumerates it.\<close>

definition enumerate_obj :: "(string \<times> hval) list \<Rightarrow> (string \<times> hval) list" where
  "enumerate_obj kvs = map (\<lambda>k. (k, hget kvs k)) (own_keys (map fst kvs))"

definition sorted_plain :: "(string \<times> hval) list \<Rightarrow> (string \<times> hval) list" where
  "sorted_plain kvs =
     enumerate_obj (foldl (\<lambda>sorted k. obj_assign sorted k (hget kvs k)) [] (sort (own_keys (map fst kvs))))"

definition sorted_instance :: "string \<Rightarrow> (string \<times> hval) list \<Rightarrow> (string \<times> hval) list" where
  "sorted_instance cls kvs =
     enumerate_obj (foldl (\<lambda>sorted k. obj_assign sorted k (hget kvs k)) [(''__type'', HStr cls)]
        (sort (own_keys (map fst kvs))))"

text \<open>\<open>JSON.stringify\<close> of a string: quotes, with the escapes of the standard.\<close>

definition hex4 :: "nat \<Rightarrow> string" where
  "hex4 n = [digit_char (n div 4096 mod 16), digit_char (n div 256 mod 16),
             digit_char (n div 16 mod 16), digit_char (n mod 16)]"

definition quote_char :: "char \<Rightarrow> string" where
  "quote_char c =
     (let n = (of_char c :: nat) in
      if n = 34 then [CHR 0x5C, CHR 0x22]
      else if n = 92 then [CHR 0x5C, CHR 0x5C]
      else if n = 8 then [CHR 0x5C, CHR ''b'']
      else if n = 9 then [CHR 0x5C, CHR ''t'']
      else if n = 10 then [CHR 0x5C, CHR ''n'']
      else if n = 12 then [CHR 0x5C, CHR ''f'']
      else if n = 13 then [CHR 0x5C, CHR ''r'']
      else if n < 32 then [CHR 0x5C, CHR ''u''] @ hex4 n
      else [c])"

definition quote :: "string \<Rightarrow> string" where
  "quote s = [CHR 0x22] @ concat (map quote_char s) @ [CHR 0x22]"

fun join :: "string \<Rightarrow> string list \<Rightarrow> string" where
  "join sep [] = []"
| "join sep [x] = x"
| "join sep (x # y # ys) = x @ sep @ join sep (y # ys)"

definition cycle_token :: string where
  "cycle_token = ''__cycle__''"

text \<open>
  The traversal of \<open>JSON.stringify(value, replacer)\<close>. \<open>ser\<close> serialises one property
  value: \<open>toJSON\<close> is called first (and may throw), then the replacer, then the result is
  written; the answer is \<open>None\<close> for \<open>undefined\<close>, which an object omits and an array
  writes as \<open>null\<close>. The set \<open>seen\<close> is threaded through the whole traversal. The first
  argument bounds the nesting depth: running out of it is the outer \<open>None\<close>.
\<close>

fun ser :: "nat \<Rightarrow> heap \<Rightarrow> hval \<Rightarrow> addr list \<Rightarrow> (jsval + string option \<times> addr list) option"
  and ser_elems :: "nat \<Rightarrow> heap \<Rightarrow> hval list \<Rightarrow> addr list \<Rightarrow> (jsval + string list \<times> addr list) option"
  and ser_props :: "nat \<Rightarrow> heap \<Rightarrow> (string \<times> hval) list \<Rightarrow> addr list \<Rightarrow> (jsval + string list \<times> addr list) option"
where
  "ser n h HUndefined seen = Some (Inr (None, seen))"
| "ser n h HNull seen = Some (Inr (Some ''null'', seen))"
| "ser n h (HBool b) seen = Some (Inr (Some (if b then ''true'' else ''false''), seen))"
| "ser n h (HNum i) seen = Some (Inr (Some (show_int i), seen))"
| "ser n h (HStr s) seen = Some (Inr (Some (quote s), seen))"
| "ser n h (HBigInt i) seen = Some (Inr (Some (quote (show_int i @ ''n'')), seen))"
| "ser n h (HSymbol d) seen = Some (Inr (Some (quote (''Symbol('' @ d @ '')'')), seen))"
| "ser n h (HFunction f) seen =
     Some (Inr (Some (quote (''[Function:'' @ (if f = [] then ''anonymous'' else f) @ '']'')), seen))"
| "ser 0 h (HRef a) seen =
     (case deref h a of
        HThrowing e \<Rightarrow> Some (Inl e)
      | _ \<Rightarrow> if a \<in> set seen then Some (Inr (Some (quote cycle_token), seen)) else None)"
| "ser (Suc n) h (HRef a) seen =
     (case deref h a of
        HThrowing e \<Rightarrow> Some (Inl e)
      | HArray xs \<Rightarrow>
          if a \<in> set seen then Some (Inr (Some (quote cycle_token), seen))
          else (case ser_elems n h xs (a # seen) of
                  None \<Rightarrow> None
                | Some (Inl e) \<Rightarrow> Some (Inl e)
                | Some (Inr (strs, seen')) \<Rightarrow> Some (Inr (Some (''['' @ join '','' strs @ '']''), seen')))
      | HObject kvs \<Rightarrow>
          if a \<in> set seen then Some (Inr (Some (quote cycle_token), seen))
          else (case ser_props n h (sorted_plain kvs) (a # seen) of
                  None \<Rightarrow> None
                | Some (Inl e) \<Rightarrow> Some (Inl e)
                | Some (Inr (strs, seen')) \<Rightarrow> Some (Inr (Some (''{'' @ join '','' strs @ ''}''), seen')))
      | HInstance cls kvs \<Rightarrow>
          if a \<in> set seen then Some (Inr (Some (quote cycle_token), seen))
          else (case ser_props n h (sorted_instance cls kvs) (a # seen) of
                  None \<Rightarrow> None
                | Some (Inl e) \<Rightarrow> Some (Inl e)
                | Some (Inr (strs, seen')) \<Rightarrow> Some (Inr (Some (''{'' @ join '','' strs @ ''}''), seen'))))"
| "ser_elems n h [] seen = Some (Inr ([], seen))"
| "ser_elems n h (x # xs) seen =
     (case ser n h x seen of
        None \<Rightarrow> None
      | Some (Inl e) \<Rightarrow> Some (Inl e)
      | Some (Inr (r, seen')) \<Rightarrow>
          (case ser_elems n h xs seen' of
             None \<Rightarrow> None
           | Some (Inl e) \<Rightarrow> Some (Inl e)
           | Some (Inr (strs, seen'')) \<Rightarrow>
               Some (Inr ((case r of None \<Rightarrow> ''null'' | Some s \<Rightarrow> s) # strs, seen''))))"
| "ser_props n h [] seen = Some (Inr ([], seen))"
| "ser_props n h ((k, v) # kvs) seen =
     (case ser n h v seen of
        None \<Rightarrow> None
      | Some (Inl e) \<Rightarrow> Some (Inl e)
      | Some (Inr (r, seen')) \<Rightarrow>
          (case ser_props n h kvs seen' of
             None \<Rightarrow> None
           | Some (Inl e) \<Rightarrow> Some (Inl e)
           | Some (Inr (strs, seen'')) \<Rightarrow>
               Some (Inr ((case r of None \<Rightarrow> strs | Some s \<Rightarrow> (quote k @ '':'' @ s) # strs), seen''))))"

text \<open>
  \<open>stableStringify\<close>: the traversal from an empty \<open>seen\<close> set inside \<open>try\<close>/\<open>catch\<close>. The
  depth allowed is one more than the number of objects of the heap, which is never used
  up (lemma \<open>ser_total\<close> below); JavaScript's own depth limit, were it hit, would be a
  \<open>RangeError\<close> caught like any other.
\<close>

definition stableStringify :: "heap \<Rightarrow> hval \<Rightarrow> jsval" where
  "stableStringify h v =
     (case ser (Suc (length h)) h v [] of
        Some (Inr (Some str, seen)) \<Rightarrow> JObj [(''status'', JBool True), (''data'', JStr str)]
      | Some (Inr (None, seen)) \<Rightarrow> JObj [(''status'', JBool True), (''data'', JUndefined)]
      | Some (Inl err) \<Rightarrow> JObj [(''status'', JBool False), (''data'', err)]
      | None \<Rightarrow> JObj [(''status'', JBool False), (''data'', JErr ''Maximum call stack size exceeded'')])"




section \<open>The cache key\<close>

text \<open>\<open>buildCacheKey(fnName, args)\<close> for an array \<open>args\<close> of heap values. \<open>rest\<close> is a
  fresh array, allocated at the end of the heap.\<close>

definition buildCacheKey :: "string \<Rightarrow> heap \<Rightarrow> hval list \<Rightarrow> jsval" where
  "buildCacheKey fnName h args =
     (case args of
        HStr model # rest \<Rightarrow>
          (let strRes = stableStringify (h @ [HArray rest]) (HRef (length h)) in
           if \<not> truthy (get_prop strRes ''status'') then
             JObj [(''status'', JBool False), (''data'', get_prop strRes ''data'')]
           else (case get_prop strRes ''data'' of
                   JStr str \<Rightarrow>
                     JObj [(''status'', JBool True),
                           (''data'', JStr (fnName @ '':'' @ model @ '':'' @ hash str))]
                 | _ \<Rightarrow> JObj [(''status'', JBool False),
                              (''data'', JErr ''Cannot read properties of undefined'')]))
      | _ \<Rightarrow> JObj [(''status'', JBool False),
                   (''data'', JErr ''Invalid args: first argument must be a model name (string)'')])"

section \<open>Process state\<close>

text \<open>
  The module's mutable state and what its collaborators hold: the state of the injected
  cache adapter, \<open>METRICS\<close>, the injected logger with the calls made to it, the clock read
  by \<open>Date.now()\<close> (milliseconds), what the store has been asked about sessions and
  transactions, in order, the calls made on models, the model registry with \<open>MODELS_DIR\<close>,
  and \<open>user\<close>, the state that the caller's callbacks (producers, work functions) act on. A
  callback returns a value or throws, and changes only \<open>user\<close>; a work function also takes
  time. The logger is any function of the error and the context: it returns (\<open>None\<close>) or
  throws.
\<close>

record op_bucket =
  count :: nat
  totalMs :: nat
  minMs :: "nat option"
  maxMs :: nat

record metrics =
  hits :: nat
  misses :: nat
  puts :: nat
  invalidations :: nat
  perOp :: "(string \<times> op_bucket) list"

text \<open>What the store sees of sessions: a session opened, a transaction begun on a session
  with its options at some time, \<open>endSession\<close> called on a session.\<close>

datatype store_event =
    SessionStarted nat
  | TransactionBegun nat jsval nat
  | SessionEnded nat

datatype db_call =
    UpdateOne string jsval jsval jsval
  | FindOneAndUpdate string jsval jsval jsval

record ('s, 'u) world =
  store :: 's
  METRICS :: metrics
  logger :: "jsval \<Rightarrow> string \<Rightarrow> jsval option"
  logged :: "(jsval \<times> string) list"
  now :: nat
  sessions_started :: nat
  transactions_begun :: nat
  events :: "store_event list"
  db_calls :: "db_call list"
  registry :: "string list"
  MODELS_DIR :: "string option"
  user :: 'u

type_synonym 'u callback = "'u \<Rightarrow> (jsval + jsval) \<times> 'u"

definition noopLogger :: "jsval \<Rightarrow> string \<Rightarrow> jsval option" where
  "noopLogger err ctx = None"

text \<open>The state at start-up, for a given adapter state, clock reading and user state:
  \<open>METRICS\<close> all zero, the logger \<open>noopLogger\<close>, nothing logged, opened or registered,
  \<open>MODELS_DIR\<close> \<open>null\<close>.\<close>

definition init_world :: "'s \<Rightarrow> nat \<Rightarrow> 'u \<Rightarrow> ('s, 'u) world" where
  "init_world s t u =
     \<lparr>store = s,
      METRICS = \<lparr>hits = 0, misses = 0, puts = 0, invalidations = 0, perOp = []\<rparr>,
      logger = noopLogger, logged = [], now = t, sessions_started = 0, transactions_begun = 0,
      events = [], db_calls = [], registry = [], MODELS_DIR = None, user = u\<rparr>"

text \<open>\<open>fail(err, ctx)\<close>: the logger is called, then the failure envelope is the value. What
  the logger throws, \<open>fail\<close> throws.\<close>

definition fail :: "jsval \<Rightarrow> string \<Rightarrow> ('s, 'u) world \<Rightarrow> (jsval + jsval) \<times> ('s, 'u) world" where
  "fail err ctx w =
     (case logger w err ctx of
        Some thrown \<Rightarrow> (Inl thrown, w\<lparr>logged := logged w @ [(err, ctx)]\<rparr>)
      | None \<Rightarrow> (Inr (fail_env err), w\<lparr>logged := logged w @ [(err, ctx)]\<rparr>))"

text \<open>\<open>_recordDb(opName, startNs)\<close>. The high-resolution clock is the millisecond clock
  in nanoseconds, so the duration is the difference of the two readings; a start mark of
  zero is falsy and records nothing. \<open>minMs\<close> starts at \<open>Infinity\<close>, here \<open>None\<close>.\<close>

definition bump_bucket :: "op_bucket \<Rightarrow> nat \<Rightarrow> op_bucket" where
  "bump_bucket b durMs =
     b\<lparr>count := count b + 1,
       totalMs := totalMs b + durMs,
       minMs := (case minMs b of None \<Rightarrow> Some durMs | Some m \<Rightarrow> Some (if durMs < m then durMs else m)),
       maxMs := (if durMs > maxMs b then durMs else maxMs b)\<rparr>"

definition recordDb :: "string \<Rightarrow> nat \<Rightarrow> ('s, 'u) world \<Rightarrow> ('s, 'u) world" where
  "recordDb opName startMs w =
     (if startMs = 0 then w
      else
        let b = (case map_of (perOp (METRICS w)) opName of
                   Some b \<Rightarrow> b
                 | None \<Rightarrow> \<lparr>count = 0, totalMs = 0, minMs = None, maxMs = 0\<rparr>)
        in w\<lparr>METRICS := (METRICS w)\<lparr>perOp :=
               obj_assign (perOp (METRICS w)) opName (bump_bucket b (now w - startMs))\<rparr>\<rparr>)"

section \<open>The cache adapter\<close>

text \<open>The injected adapter \<open>{get, put, del, keys}\<close> over its own state. Each method
  returns a value or throws. \<open>noopCache\<close> is the adapter in place when none is injected.\<close>

record 's cache_adapter =
  cache_get :: "jsval \<Rightarrow> 's \<Rightarrow> (jsval + jsval) \<times> 's"
  cache_put :: "jsval \<Rightarrow> jsval \<Rightarrow> jsnumber \<Rightarrow> 's \<Rightarrow> (jsval + jsval) \<times> 's"
  cache_del :: "jsval \<Rightarrow> 's \<Rightarrow> (jsval + jsval) \<times> 's"
  cache_keys :: "'s \<Rightarrow> (jsval + jsval) \<times> 's"

definition noopCache :: "'s cache_adapter" where
  "noopCache =
     \<lparr>cache_get = (\<lambda>k s. (Inr JUndefined, s)),
      cache_put = (\<lambda>k v ttl s. (Inr (JBool False), s)),
      cache_del = (\<lambda>k s. (Inr (JBool False), s)),
      cache_keys = (\<lambda>s. (Inr (JArr []), s))\<rparr>"

text \<open>
  An in-memory adapter to run the helpers against: the state is the list of entries, each
  a key with its value and TTL; \<open>del\<close> throws on the keys listed in \<open>broken\<close>.
\<close>

type_synonym mem_store = "(jsval \<times> jsval \<times> jsnumber) list"

definition mem_cache :: "jsval list \<Rightarrow> mem_store cache_adapter" where
  "mem_cache broken =
     \<lparr>cache_get = (\<lambda>k s. (Inr (case map_of s k of Some (v, ttl) \<Rightarrow> v | None \<Rightarrow> JUndefined), s)),
      cache_put = (\<lambda>k v ttl s. (Inr (JBool True), (k, (v, ttl)) # filter (\<lambda>e. fst e \<noteq> k) s)),
      cache_del = (\<lambda>k s. if k \<in> set broken then (Inl (JErr ''del failed''), s)
                          else (Inr (JBool (k \<in> set (map fst s))), filter (\<lambda>e. fst e \<noteq> k) s)),
      cache_keys = (\<lambda>s. (Inr (JArr (map fst s)), s))\<rparr>"

section \<open>The cache wrapper\<close>

record cache_opts =
  enabled :: jsval
  key :: jsval
  ttl :: ttl_value
  cacheIf :: "(jsval \<Rightarrow> bool) option"

definition is_boolean :: "jsval \<Rightarrow> bool" where
  "is_boolean v = (case v of JBool b \<Rightarrow> True | _ \<Rightarrow> False)"

text \<open>\<open>res && typeof res.status === "boolean" ? res : ok(res)\<close>\<close>

definition normalize_result :: "jsval \<Rightarrow> jsval" where
  "normalize_result res = (if truthy res \<and> is_boolean (get_prop res ''status'') then res else ok res)"

definition run_uncached :: "'u callback \<Rightarrow> ('s, 'u) world \<Rightarrow> (jsval + jsval) \<times> ('s, 'u) world" where
  "run_uncached runFn w =
     (case runFn (user w) of
        (Inl err, u) \<Rightarrow> (Inl err, w\<lparr>user := u\<rparr>)
      | (Inr res, u) \<Rightarrow> (Inr (normalize_result res), w\<lparr>user := u\<rparr>))"

text \<open>
  \<open>const { enabled = true, key, ttl = DEFAULT_TTL, cacheIf = (r) => r?.status === true } = cacheOpts || {}\<close>:
  a default applies to a property that is \<open>undefined\<close>.
\<close>

definition destructure :: "cache_opts option \<Rightarrow> jsval \<times> jsval \<times> ttl_value \<times> (jsval \<Rightarrow> bool)" where
  "destructure cacheOpts =
     (case cacheOpts of
        None \<Rightarrow> (JBool True, JUndefined, TNumber (Finite DEFAULT_TTL), (\<lambda>r. get_prop r ''status'' = JBool True))
      | Some c \<Rightarrow>
          (if enabled c = JUndefined then JBool True else enabled c,
           key c,
           if ttl c = TUndefined then TNumber (Finite DEFAULT_TTL) else ttl c,
           case cacheIf c of Some f \<Rightarrow> f | None \<Rightarrow> (\<lambda>r. get_prop r ''status'' = JBool True)))"

text \<open>The body of \<open>withCache\<close> once the cache key is known: look up, return a hit, or
  run, normalise and store.\<close>

definition lookup_or_run ::
  "'s cache_adapter \<Rightarrow> jsval \<Rightarrow> (jsval \<Rightarrow> bool) \<Rightarrow> jsnumber \<Rightarrow> 'u callback \<Rightarrow>
     ('s, 'u) world \<Rightarrow> (jsval + jsval) \<times> ('s, 'u) world" where
  "lookup_or_run cache cacheKey cacheIf' normalizedTTL runFn w =
     (case cache_get cache cacheKey (store w) of
        (Inl err, s1) \<Rightarrow> (Inl err, w\<lparr>store := s1\<rparr>)
      | (Inr hit, s1) \<Rightarrow>
          if hit \<noteq> JUndefined \<and> hit \<noteq> JNull then (Inr hit, w\<lparr>store := s1\<rparr>)
          else
            (case runFn (user w) of
               (Inl err, u) \<Rightarrow> (Inl err, w\<lparr>store := s1, user := u\<rparr>)
             | (Inr res, u) \<Rightarrow>
                 let normalized = normalize_result res in
                 if cacheIf' normalized then
                   (case cache_put cache cacheKey normalized normalizedTTL s1 of
                      (Inl err, s2) \<Rightarrow> (Inl err, w\<lparr>store := s2, user := u\<rparr>)
                    | (Inr r, s2) \<Rightarrow> (Inr normalized, w\<lparr>store := s2, user := u\<rparr>))
                 else (Inr normalized, w\<lparr>store := s1, user := u\<rparr>)))"

text \<open>
  \<open>withCache(fnName, args, cacheOpts, runFn)\<close>, with \<open>cache\<close> the adapter in place.
  \<open>withCache\<close> has no \<open>try\<close>: what the adapter or \<open>runFn\<close> throws, it throws.
\<close>

definition withCache ::
  "'s cache_adapter \<Rightarrow> string \<Rightarrow> heap \<Rightarrow> hval list \<Rightarrow> cache_opts option \<Rightarrow> 'u callback \<Rightarrow>
     ('s, 'u) world \<Rightarrow> (jsval + jsval) \<times> ('s, 'u) world" where
  "withCache cache fnName h args cacheOpts runFn w =
     (case destructure cacheOpts of
        (enabled', key', ttl', cacheIf') \<Rightarrow>
          let normalizedTTL = normalizeTTL ttl' in
          if \<not> truthy enabled' then run_uncached runFn w
          else
            let k = (if key' = JUndefined \<or> key' = JNull then buildCacheKey fnName h args else key')
            in
            if get_prop k ''status'' = JBool False then run_uncached runFn w
            else lookup_or_run cache (get_prop k ''data'') cacheIf' normalizedTTL runFn w)"

section \<open>Invalidation\<close>

text \<open>\<open>String(v)\<close>.\<close>

fun js_String :: "jsval \<Rightarrow> string" where
  "js_String JUndefined = ''undefined''"
| "js_String JNull = ''null''"
| "js_String (JBool b) = (if b then ''true'' else ''false'')"
| "js_String (JNum i) = show_int i"
| "js_String (JStr s) = s"
| "js_String (JArr xs) =
     join '','' (map (\<lambda>x. if x = JUndefined \<or> x = JNull then [] else js_String x) xs)"
| "js_String (JObj kvs) = ''[object Object]''"
| "js_String (JErr m) = (if m = [] then ''Error'' else ''Error: '' @ m)"

definition startsWith :: "string \<Rightarrow> string \<Rightarrow> bool" where
  "startsWith s p = (take (length p) s = p)"

text \<open>\<open>Array.isArray(v) ? v : [v]\<close>\<close>

definition as_array :: "jsval \<Rightarrow> jsval list" where
  "as_array v = (case v of JArr xs \<Rightarrow> xs | _ \<Rightarrow> [v])"

text \<open>\<open>new Set(xs)\<close> in insertion order. Primitives are compared by value; two objects
  of a value tree are two objects, so neither is dropped.\<close>

definition is_primitive :: "jsval \<Rightarrow> bool" where
  "is_primitive v = (case v of JArr xs \<Rightarrow> False | JObj kvs \<Rightarrow> False | JErr m \<Rightarrow> False | _ \<Rightarrow> True)"

definition js_Set :: "jsval list \<Rightarrow> jsval list" where
  "js_Set xs = foldl (\<lambda>acc x. if is_primitive x \<and> x \<in> set acc then acc else acc @ [x]) [] xs"

text \<open>\<open>for (const key of all)\<close>: an array gives its elements, a string its characters, and
  any other value is not iterable (a falsy \<open>all\<close> was replaced by \<open>[]\<close> before).\<close>

definition iterate :: "jsval \<Rightarrow> jsval + jsval list" where
  "iterate all =
     (case all of
        JArr xs \<Rightarrow> Inr xs
      | JStr s \<Rightarrow> Inr (map (\<lambda>c. JStr [c]) s)
      | _ \<Rightarrow> Inl (JErr ''all is not iterable''))"

text \<open>The loops of \<open>invalidateCache\<close>, on the adapter state and the running count.
  \<open>matching keys p\<close> are the keys with \<open>String(key).startsWith(p)\<close>.
  \<open>del_each\<close> is \<open>try { cache.del(k); count++ } catch (_) {}\<close> over a list of keys: a \<open>del\<close> that throws is not counted and the loop goes on.\<close>

fun del_each :: "'s cache_adapter \<Rightarrow> jsval list \<Rightarrow> 's \<times> nat \<Rightarrow> 's \<times> nat" where
  "del_each cache [] (s, n) = (s, n)"
| "del_each cache (k # ks) (s, n) =
     (case cache_del cache k s of
        (Inl err, s') \<Rightarrow> del_each cache ks (s', n)
      | (Inr r, s') \<Rightarrow> del_each cache ks (s', n + 1))"

definition matching :: "jsval list \<Rightarrow> jsval \<Rightarrow> jsval list" where
  "matching keys p = filter (\<lambda>k. startsWith (js_String k) (js_String p)) keys"

fun del_prefixes :: "'s cache_adapter \<Rightarrow> jsval \<Rightarrow> jsval list \<Rightarrow> 's \<times> nat \<Rightarrow> jsval + 's \<times> nat" where
  "del_prefixes cache all [] (s, n) = Inr (s, n)"
| "del_prefixes cache all (p # ps) (s, n) =
     (case iterate all of
        Inl err \<Rightarrow> Inl err
      | Inr keys \<Rightarrow>
          del_prefixes cache all ps
            (del_each cache (matching keys p) (s, n)))"

definition invalidated :: "nat \<Rightarrow> jsval" where
  "invalidated n = ok (JObj [(''invalidated'', JNum (int n))])"

text \<open>\<open>invalidateCache(input)\<close>, with \<open>cache\<close> the adapter in place. What is thrown inside
  goes to \<open>fail\<close>.\<close>

definition invalidateCache ::
  "'s cache_adapter \<Rightarrow> jsval \<Rightarrow> ('s, 'u) world \<Rightarrow> (jsval + jsval) \<times> ('s, 'u) world" where
  "invalidateCache cache input w =
     (if \<not> truthy input then (Inr (invalidated 0), w)
      else
        let keys = (if is_string_or_array input then as_array input
                    else if typeof_object input \<and> truthy (get_prop input ''keys'')
                      then as_array (get_prop input ''keys'')
                    else []);
            prefixes = (if \<not> is_string_or_array input \<and> typeof_object input
                             \<and> truthy (get_prop input ''prefixes'')
                          then as_array (get_prop input ''prefixes'')
                        else []);
            (s1, count1) = del_each cache (js_Set (filter truthy keys)) (store w, 0)
        in
        if prefixes = [] then
          (Inr (invalidated count1),
           w\<lparr>store := s1, METRICS := (METRICS w)\<lparr>invalidations := invalidations (METRICS w) + count1\<rparr>\<rparr>)
        else
          (case cache_keys cache s1 of
             (Inl err, s2) \<Rightarrow> fail err ''invalidateCache'' (w\<lparr>store := s2\<rparr>)
           | (Inr ks, s2) \<Rightarrow>
               (case del_prefixes cache (if truthy ks then ks else JArr []) (filter truthy prefixes)
                       (s2, count1) of
                  Inl err \<Rightarrow> fail err ''invalidateCache'' (w\<lparr>store := s2\<rparr>)
                | Inr (s3, count2) \<Rightarrow>
                    (Inr (invalidated count2),
                     w\<lparr>store := s3,
                       METRICS := (METRICS w)\<lparr>invalidations := invalidations (METRICS w) + count2\<rparr>\<rparr>))))"

text \<open>
  What the claim says of a call with exact keys \<open>ks\<close> and prefixes \<open>ps\<close> on the in-memory
  adapter. \<open>E\<close> are the truthy exact keys as a set, \<open>P\<close> the truthy prefixes, \<open>s1\<close> the
  entries left by the exact-key pass; the count has one for each exact key whose deletion
  does not throw and one for each prefix and each key listed in \<open>s1\<close> that starts with it
  and whose deletion does not throw; the entries that stay are those whose deletion
  throws and those that are no exact key and start with no prefix.
\<close>

definition swept ::
  "jsval list \<Rightarrow> jsval list \<Rightarrow> jsval list \<Rightarrow> (mem_store, 'u) world \<Rightarrow>
     (jsval + jsval) \<times> (mem_store, 'u) world" where
  "swept broken ks ps w =
     (let E = js_Set (filter truthy ks);
          P = filter truthy ps;
          s1 = filter (\<lambda>e. fst e \<notin> set E \<or> fst e \<in> set broken) (store w);
          n = length (filter (\<lambda>k. k \<notin> set broken) E)
              + sum_list (map (\<lambda>p. length (filter (\<lambda>k. k \<notin> set broken) (matching (map fst s1) p))) P)
      in (Inr (invalidated n),
          w\<lparr>store := filter (\<lambda>e. fst e \<in> set broken \<or>
                    (fst e \<notin> set E \<and> \<not> (\<exists>p \<in> set P. startsWith (js_String (fst e)) (js_String p))))
                  (store w),
            METRICS := (METRICS w)\<lparr>invalidations := invalidations (METRICS w) + n\<rparr>\<rparr>))"

section \<open>Transactions\<close>

text \<open>
  The arguments of \<open>withTransaction(workOrObj, txOptions)\<close>. A work function takes the
  session and returns a value or throws, after some milliseconds; anything else passed as
  work is \<open>NotFn\<close>. The first argument is the work itself or an object \<open>{work, txOptions}\<close>
  (a missing or \<open>null\<close> \<open>txOptions\<close> is \<open>None\<close>).
\<close>

datatype 'u callable =
    Fn "nat \<Rightarrow> 'u \<Rightarrow> (jsval + jsval) \<times> nat \<times> 'u"
  | NotFn jsval

record tx_options =
  readConcern :: jsval
  writeConcern :: jsval
  readPreference :: jsval
  maxCommitRetries :: "jsnumber option"

datatype 'u work_arg =
    Work "'u callable"
  | WorkObj "'u callable" "tx_options option"

text \<open>
  The store's sessions, as \<open>withTransaction\<close> uses them. \<open>startSession\<close> gives a fresh
  session, \<open>endSession\<close> closes one; \<open>session.withTransaction(fn, options)\<close> begins a
  transaction, runs \<open>fn\<close> once and commits, and throws what \<open>fn\<close> throws or what the commit
  throws. The three faults the store can raise are parameters: on opening a session, on
  the commit of the n-th transaction begun, on closing a session. Each call is entered in
  \<open>events\<close> as it is made (\<open>startSession\<close> when it has given a session).
\<close>

record driver =
  startSession_error :: "jsval option"
  commit_error :: "nat \<Rightarrow> jsval option"
  endSession_error :: "jsval option"

definition startSession :: "driver \<Rightarrow> ('s, 'u) world \<Rightarrow> (jsval + nat) \<times> ('s, 'u) world" where
  "startSession d w =
     (case startSession_error d of
        Some err \<Rightarrow> (Inl err, w)
      | None \<Rightarrow> (Inr (sessions_started w),
                 w\<lparr>sessions_started := Suc (sessions_started w),
                   events := events w @ [SessionStarted (sessions_started w)]\<rparr>))"

definition endSession :: "driver \<Rightarrow> nat \<Rightarrow> ('s, 'u) world \<Rightarrow> (jsval + unit) \<times> ('s, 'u) world" where
  "endSession d session w =
     (case endSession_error d of
        Some err \<Rightarrow> (Inl err, w\<lparr>events := events w @ [SessionEnded session]\<rparr>)
      | None \<Rightarrow> (Inr (), w\<lparr>events := events w @ [SessionEnded session]\<rparr>))"

definition session_withTransaction ::
  "driver \<Rightarrow> (nat \<Rightarrow> 'u \<Rightarrow> (jsval + jsval) \<times> nat \<times> 'u) \<Rightarrow> nat \<Rightarrow> jsval \<Rightarrow> ('s, 'u) world \<Rightarrow>
     (jsval + jsval) \<times> ('s, 'u) world" where
  "session_withTransaction d work session txnOptions w =
     (let w0 = w\<lparr>transactions_begun := Suc (transactions_begun w),
                 events := events w @ [TransactionBegun session txnOptions (now w)]\<rparr> in
      case work session (user w) of
        (Inl err, ms, u) \<Rightarrow> (Inl err, w0\<lparr>now := now w + ms, user := u\<rparr>)
      | (Inr result, ms, u) \<Rightarrow>
          (case commit_error d (transactions_begun w) of
             Some err \<Rightarrow> (Inl err, w0\<lparr>now := now w + ms, user := u\<rparr>)
           | None \<Rightarrow> (Inr result, w0\<lparr>now := now w + ms, user := u\<rparr>)))"

text \<open>\<open>attempt < maxCommitRetries\<close> for a counter and a number.\<close>

definition js_less :: "nat \<Rightarrow> jsnumber \<Rightarrow> bool" where
  "js_less n x = (case x of Finite r \<Rightarrow> of_nat n < r | PosInfinity \<Rightarrow> True | _ \<Rightarrow> False)"

definition maxAttempts :: nat where
  "maxAttempts = 10"

definition maxDurationMs :: nat where
  "maxDurationMs = 30000"

definition retry_limit_error :: jsval where
  "retry_limit_error =
     JErr ''Transaction retry limit exceeded: max attempts (10) or duration (30000ms) reached''"

definition build_txnOptions :: "tx_options \<Rightarrow> jsval" where
  "build_txnOptions t =
     JObj ((if truthy (readConcern t) then [(''readConcern'', JObj [(''level'', readConcern t)])] else [])
           @ (if truthy (writeConcern t) then [(''writeConcern'', writeConcern t)] else [])
           @ (if truthy (readPreference t) then [(''readPreference'', readPreference t)] else []))"

text \<open>
  The \<open>while (true)\<close> loop, from the value of \<open>attempt\<close> and the state at the top of an
  iteration. \<open>Inr\<close> is the envelope returned from inside the loop, \<open>Inl\<close> the error thrown
  out of it. It ends because \<open>attempt\<close> grows on every retry and the guard stops at
  \<open>maxAttempts\<close>.
\<close>

function tx_loop ::
  "driver \<Rightarrow> (nat \<Rightarrow> 'u \<Rightarrow> (jsval + jsval) \<times> nat \<times> 'u) \<Rightarrow> nat \<Rightarrow> jsval \<Rightarrow> jsnumber \<Rightarrow> nat \<Rightarrow> nat \<Rightarrow>
     ('s, 'u) world \<Rightarrow> (jsval + jsval) \<times> ('s, 'u) world" where
  "tx_loop d work session txnOptions maxRetries startTime attempt w =
     (if attempt \<ge> maxAttempts \<or> now w - startTime > maxDurationMs then (Inl retry_limit_error, w)
      else
        (case session_withTransaction d work session txnOptions w of
           (Inr result, w') \<Rightarrow> (Inr (ok result), recordDb ''withTransaction'' startTime w')
         | (Inl err, w') \<Rightarrow>
             if js_less attempt maxRetries
               then tx_loop d work session txnOptions maxRetries startTime (attempt + 1) w'
             else (Inl err, w')))"
  by pat_completeness auto
termination
  by (relation "measure (\<lambda>(d, work, session, txnOptions, maxRetries, startTime, attempt, w). maxAttempts - attempt)")
     auto

declare tx_loop.simps [simp del]

text \<open>
  \<open>withTransaction(workOrObj, txOptions)\<close>. The test of \<open>work\<close> and \<open>startSession\<close> come
  before the \<open>try\<close>. The error thrown out of the loop goes to \<open>fail\<close> in the \<open>catch\<close>; the
  \<open>finally\<close> calls \<open>endSession\<close> after either, and what \<open>endSession\<close> throws replaces the
  outcome.
\<close>

definition withTransaction ::
  "driver \<Rightarrow> 'u work_arg \<Rightarrow> tx_options option \<Rightarrow> ('s, 'u) world \<Rightarrow> (jsval + jsval) \<times> ('s, 'u) world" where
  "withTransaction d workOrObj txOptions w =
     (let (work, resolvedTxOptions) =
            (case workOrObj of
               WorkObj wk t \<Rightarrow> (wk, case t of Some t' \<Rightarrow> Some t' | None \<Rightarrow> txOptions)
             | Work wk \<Rightarrow> (wk, txOptions))
      in
      case work of
        NotFn v \<Rightarrow> (Inl (JErr ''withTransaction: work must be a function''), w)
      | Fn f \<Rightarrow>
          (case startSession d w of
             (Inl err, w1) \<Rightarrow> (Inl err, w1)
           | (Inr session, w1) \<Rightarrow>
               let t = (case resolvedTxOptions of
                          Some t \<Rightarrow> t
                        | None \<Rightarrow> \<lparr>readConcern = JUndefined, writeConcern = JUndefined,
                                    readPreference = JUndefined, maxCommitRetries = None\<rparr>);
                   maxRetries = (case maxCommitRetries t of Some m \<Rightarrow> m | None \<Rightarrow> Finite 0);
                   (r, w2) = tx_loop d f session (build_txnOptions t) maxRetries (now w1) 0 w1;
                   (r', w3) = (case r of
                                 Inr env \<Rightarrow> (Inr env, w2)
                               | Inl err \<Rightarrow> fail err ''withTransaction'' w2)
               in
               (case endSession d session w3 of
                  (Inl err, w4) \<Rightarrow> (Inl err, w4)
                | (Inr x, w4) \<Rightarrow> (r', w4))))"

section \<open>Model resolution and the upsert\<close>

text \<open>
  What the module reaches outside itself: the environment variable for the models
  directory, the application root, \<open>require\<close> of the file of a model (given the root, the
  directory and the name: it throws, or registers some model names and exports either a
  model, named by its \<open>modelName\<close>, or something else), whether what was resolved under a
  name has a \<open>findOneAndUpdate\<close> method, and the store's answer to a call on a model (a
  call of a method that is missing throws). A model is known by its name.
\<close>

record 'u environment =
  env_models_dir :: "string option"
  app_root :: string
  require :: "string \<Rightarrow> string \<Rightarrow> string \<Rightarrow> jsval + string option \<times> string list"
  has_findOneAndUpdate :: "string \<Rightarrow> bool"
  db_exec :: "db_call \<Rightarrow> 'u \<Rightarrow> (jsval + jsval) \<times> 'u"

definition is_letter :: "char \<Rightarrow> bool" where
  "is_letter c = (c \<in> set ''abcdefghijklmnopqrstuvwxyzABCDEFGHIJKLMNOPQRSTUVWXYZ'')"

definition pluralizeName :: "string \<Rightarrow> string" where
  "pluralizeName model =
     (if (model \<noteq> [] \<and> last model = CHR ''s'') \<or> \<not> (model \<noteq> [] \<and> is_letter (last model)) then model
      else model @ ''s'')"

definition getModelsDir :: "'u environment \<Rightarrow> ('s, 'u) world \<Rightarrow> string" where
  "getModelsDir e w =
     (case MODELS_DIR w of
        Some dir \<Rightarrow> if dir \<noteq> [] then dir
                    else (case env_models_dir e of Some v \<Rightarrow> if v \<noteq> [] then v else ''./models''
                                                  | None \<Rightarrow> ''./models'')
      | None \<Rightarrow> (case env_models_dir e of Some v \<Rightarrow> if v \<noteq> [] then v else ''./models''
                                        | None \<Rightarrow> ''./models''))"

text \<open>\<open>resolveModel(model)\<close> returns the model or throws; it is not wrapped in \<open>try\<close>. The
  message of the last error also names the path, which is left out here.\<close>

definition resolveModel ::
  "'u environment \<Rightarrow> jsval \<Rightarrow> ('s, 'u) world \<Rightarrow> (jsval + string) \<times> ('s, 'u) world" where
  "resolveModel e model w =
     (case model of
        JStr m \<Rightarrow>
          let name = pluralizeName m in
          if name \<in> set (registry w) then (Inr name, w)
          else
            let w1 = (if MODELS_DIR w = None \<or> MODELS_DIR w = Some []
                        then w\<lparr>MODELS_DIR := Some (getModelsDir e w)\<rparr> else w)
            in
            (case require e (app_root e) (getModelsDir e w1) name of
               Inl err \<Rightarrow> (Inl err, w1)
             | Inr (exported, registered) \<Rightarrow>
                 let w2 = w1\<lparr>registry := registry w1 @ registered\<rparr> in
                 if name \<in> set (registry w2) then (Inr name, w2)
                 else
                   (case exported of
                      Some modelName \<Rightarrow> (Inr modelName, w2)
                    | None \<Rightarrow> (Inl (JErr (''Mongoose model '' @ [CHR 0x22] @ name @ [CHR 0x22] @ '' not found'')), w2)))
      | _ \<Rightarrow> (Inl (JErr ''resolveModel: model must be a string''), w))"

text \<open>\<open>{ ...src }\<close> onto a property list: the own enumerable properties of an object, the
  elements of an array under their indices, the characters of a string; nothing for the
  other values.\<close>

definition spread_into :: "(string \<times> jsval) list \<Rightarrow> jsval \<Rightarrow> (string \<times> jsval) list" where
  "spread_into target src =
     (case src of
        JObj kvs \<Rightarrow>
          foldl (\<lambda>obj k. obj_assign obj k (get_prop src k)) target (own_keys (map fst kvs))
      | JArr xs \<Rightarrow>
          foldl (\<lambda>obj (i, x). obj_assign obj (show_int (int i)) x) target (zip [0..<length xs] xs)
      | JStr str \<Rightarrow>
          foldl (\<lambda>obj (i, c). obj_assign obj (show_int (int i)) (JStr [c])) target (zip [0..<length str] str)
      | _ \<Rightarrow> target)"

text \<open>\<open>const opts = { upsert: true, ...options }\<close>\<close>

definition upsert_opts :: "jsval \<Rightarrow> jsval" where
  "upsert_opts opts = JObj (spread_into [(''upsert'', JBool True)] opts)"

definition wantsDoc :: "jsval \<Rightarrow> bool" where
  "wantsDoc opts =
     (get_prop opts ''new'' = JBool True \<or> get_prop opts ''returnDocument'' = JStr ''after''
      \<or> get_prop opts ''returnDocument'' = JBool True)"

text \<open>\<open>a ?? b\<close>\<close>

definition nullish_or :: "jsval \<Rightarrow> jsval \<Rightarrow> jsval" where
  "nullish_or a b = (if a = JUndefined \<or> a = JNull then b else a)"

text \<open>The body of \<open>upsertOne\<close>'s \<open>try\<close> once the model is resolved, and the operation itself:
  whatever is thrown inside goes to \<open>fail\<close>.\<close>

definition upsert_resolved ::
  "'u environment \<Rightarrow> 's cache_adapter \<Rightarrow> string \<Rightarrow> jsval \<Rightarrow> jsval \<Rightarrow> jsval \<Rightarrow> jsval \<Rightarrow>
     ('s, 'u) world \<Rightarrow> (jsval + jsval) \<times> ('s, 'u) world" where
  "upsert_resolved e cache Model model resolvedFilter resolvedData resolvedWriteArg w =
     (let opName = ''upsertOne:'' @ js_String model;
          start = now w;
          parsed = parseWriteArg resolvedWriteArg;
          opts = upsert_opts (options parsed);
          call = (if wantsDoc opts \<and> has_findOneAndUpdate e Model
                    then FindOneAndUpdate Model resolvedFilter resolvedData opts
                  else UpdateOne Model resolvedFilter resolvedData opts);
          w1 = w\<lparr>db_calls := db_calls w @ [call]\<rparr>
      in
      case db_exec e call (user w1) of
        (Inl err, u) \<Rightarrow> (Inl err, w1\<lparr>user := u\<rparr>)
      | (Inr res, u) \<Rightarrow>
          let w2 = w1\<lparr>user := u\<rparr>;
              (i, w3) = (if truthy (invalidateKeys parsed) \<or> truthy (invalidatePrefixes parsed)
                           then invalidateCache cache
                                  (JObj [(''keys'', invalidateKeys parsed),
                                         (''prefixes'', invalidatePrefixes parsed)]) w2
                         else (Inr JUndefined, w2))
          in (case i of
                Inl err \<Rightarrow> (Inl err, w3)
              | Inr x \<Rightarrow> (Inr (ok res), recordDb opName start w3)))"

definition upsertOne ::
  "'u environment \<Rightarrow> 's cache_adapter \<Rightarrow> jsval \<Rightarrow> jsval \<Rightarrow> jsval \<Rightarrow> jsval \<Rightarrow>
     ('s, 'u) world \<Rightarrow> (jsval + jsval) \<times> ('s, 'u) world" where
  "upsertOne e cache modelOrObj filter' data writeArg w =
     (let isObj = (typeof_object modelOrObj \<and> modelOrObj \<noteq> JNull);
          model = (if isObj then get_prop modelOrObj ''model'' else modelOrObj);
          resolvedFilter = (if isObj then nullish_or (get_prop modelOrObj ''filter'') filter' else filter');
          resolvedData = (if isObj then nullish_or (get_prop modelOrObj ''data'') data else data);
          resolvedWriteArg = (if isObj then nullish_or (get_prop modelOrObj ''writeArg'') writeArg else writeArg)
      in
      case resolveModel e model w of
        (Inl err, w1) \<Rightarrow> fail err ''upsertOne'' w1
      | (Inr Model, w1) \<Rightarrow>
          (case upsert_resolved e cache Model model resolvedFilter resolvedData resolvedWriteArg w1 of
             (Inl err, w2) \<Rightarrow> fail err ''upsertOne'' w2
           | (Inr env, w2) \<Rightarrow> (Inr env, w2)))"

text \<open>A producer that counts its calls in the user state and returns a fixed value.\<close>

definition counting :: "jsval \<Rightarrow> nat callback" where
  "counting v = (\<lambda>n. (Inr v, Suc n))"

(*PROPERTIES*)
section \<open>Properties of the TTL normaliser\<close>

lemma takeWhile_dropWhile_digits:
  "ds \<noteq> [] \<Longrightarrow> list_all is_digit ds \<Longrightarrow> (u = [] \<or> \<not> is_digit (hd u)) \<Longrightarrow>
   takeWhile is_digit (ds @ u) = ds \<and> dropWhile is_digit (ds @ u) = u"
  by (cases u) (auto simp: list_all_iff takeWhile_append2 dropWhile_append2)

lemma unit_not_digit:
  "u \<in> set [[], ''ms'', ''s'', ''m'', ''h'', ''d''] \<Longrightarrow> u = [] \<or> \<not> is_digit (hd u)"
  by (auto simp: is_digit_def)

text \<open>The matcher accepts exactly the strings that are one or more digits followed by at
  most one unit, which is what the pattern says.\<close>

lemma match_ttl_iff:
  "match_ttl s = Some (ds, u) \<longleftrightarrow>
     s = ds @ u \<and> ds \<noteq> [] \<and> list_all is_digit ds \<and> u \<in> set [[], ''ms'', ''s'', ''m'', ''h'', ''d'']"
proof
  assume "match_ttl s = Some (ds, u)"
  then have a: "ds = takeWhile is_digit s" "u = dropWhile is_digit s" "ds \<noteq> []"
     "u \<in> set [[], ''ms'', ''s'', ''m'', ''h'', ''d'']"
    by (auto simp: match_ttl_def Let_def split: if_splits)
  have "list_all is_digit (takeWhile is_digit s)"
    by (simp add: list_all_iff) (meson set_takeWhileD)
  with a show "s = ds @ u \<and> ds \<noteq> [] \<and> list_all is_digit ds
      \<and> u \<in> set [[], ''ms'', ''s'', ''m'', ''h'', ''d'']"
    by simp
next
  assume r: "s = ds @ u \<and> ds \<noteq> [] \<and> list_all is_digit ds
      \<and> u \<in> set [[], ''ms'', ''s'', ''m'', ''h'', ''d'']"
  then have "takeWhile is_digit s = ds \<and> dropWhile is_digit s = u"
    using takeWhile_dropWhile_digits [of ds u] unit_not_digit [of u] by blast
  with r show "match_ttl s = Some (ds, u)"
    by (simp add: match_ttl_def Let_def)
qed

text \<open>A natural number up to \<open>2 ^ 53\<close> is a double: rounding leaves it as it is.\<close>

lemma bitlen_le: "n < 2 ^ k \<Longrightarrow> bitlen n \<le> k"
proof (induction k arbitrary: n)
  case 0
  then show ?case by (simp add: bitlen.simps)
next
  case (Suc k)
  from Suc.prems have "n div 2 < 2 ^ k" by simp
  from Suc.IH [OF this] show ?case by (subst bitlen.simps) simp
qed

lemma bitlen_pow: "bitlen (2 ^ k) = Suc k"
proof (induction k)
  case 0
  show ?case by (simp add: bitlen.simps)
next
  case (Suc k)
  then show ?case by (subst bitlen.simps) simp
qed

lemma to_double_exact:
  assumes "n \<le> 2 ^ 53"
  shows "to_double n = Some n"
proof (cases "n = 2 ^ 53")
  case True
  have "bitlen n - 53 = 1" unfolding True bitlen_pow by simp
  then show ?thesis by (simp add: to_double_def True)
next
  case False
  with assms have "n < 2 ^ 53" by simp
  then have b: "bitlen n - 53 = 0" using bitlen_le [of n 53] by simp
  have "n < 2 ^ 1024"
    using \<open>n < 2 ^ 53\<close> by (rule less_trans) simp
  then show ?thesis by (simp add: to_double_def b)
qed

lemma normalizeTTL_match:
  assumes "match_ttl (toLowerCase (js_trim t)) = Some (ds, u)"
  shows "normalizeTTL (TString t)
     = number_of (if u = [] \<or> u = ''ms'' then parseInt ds else times (parseInt ds) (unit_multiplier u))"
proof -
  from assms have "u \<in> set [[], ''ms'', ''s'', ''m'', ''h'', ''d'']"
    by (simp add: match_ttl_iff)
  then show ?thesis using assms
    by (auto simp: normalizeTTL_def unit_multiplier_def Let_def)
qed

lemma normalizeTTL_exact:
  assumes m: "match_ttl (toLowerCase (js_trim t)) = Some (ds, u)"
    and small: "digits_value ds * unit_multiplier u \<le> 2 ^ 53"
  shows "normalizeTTL (TString t) = Finite (of_nat (digits_value ds * unit_multiplier u))"
proof -
  have "1 \<le> unit_multiplier u" by (simp add: unit_multiplier_def)
  then have "digits_value ds * 1 \<le> digits_value ds * unit_multiplier u"
    by (rule mult_le_mono2)
  then have "digits_value ds \<le> digits_value ds * unit_multiplier u"
    by (simp only: mult_1_right)
  from this small have v: "digits_value ds \<le> 2 ^ 53" by (rule le_trans)
  have p: "parseInt ds = Some (digits_value ds)"
    unfolding parseInt_def by (rule to_double_exact [OF v])
  have one: "unit_multiplier u = 1" if "u = [] \<or> u = ''ms''"
    using that by (auto simp: unit_multiplier_def)
  show ?thesis
    unfolding normalizeTTL_match [OF m] p
    using to_double_exact [OF small] one
    by (auto simp: times_def number_of_def)
qed

lemmas ttl_eval = normalizeTTL_def match_ttl_def toLowerCase_def js_trim_def is_space_def
  is_digit_def lower_char_def parseInt_def digits_value_def DEFAULT_TTL_def ttl_grammar_def
  unit_multiplier_def number_of_def times_def

lemma normalizeTTL_examples:
  "normalizeTTL (TNumber (Finite (-5))) = Finite 0"
  "normalizeTTL (TNumber (Finite 500)) = Finite 500"
  "normalizeTTL (TString ''500ms'') = Finite 500"
  "normalizeTTL (TString ''5m'') = Finite 300000"
  "normalizeTTL (TString ''2d'') = Finite 172800000"
  "normalizeTTL (TString ''60000'') = Finite 60000"
  "normalizeTTL (TString ''bogus'') = Finite 60000"
  by (simp_all add: ttl_eval to_double_exact)

lemma bitlen_numeral:
  "bitlen (numeral k) = Suc (bitlen (numeral k div 2))"
  by (subst bitlen.simps) simp

lemma bitlen_small: "bitlen 0 = 0" "bitlen 1 = 1" "bitlen (Suc 0) = 1"
  by (simp_all add: bitlen.simps)

lemma normalizeTTL_rounds:
  "normalizeTTL (TString ''9007199254740993'') = Finite 9007199254740992"
proof -
  have v: "digits_value ''9007199254740993'' = 9007199254740993"
    by (simp add: digits_value_def)
  have b: "bitlen 9007199254740993 = 54"
    by (simp add: bitlen_numeral bitlen_small)
  have "to_double 9007199254740993 = Some 9007199254740992"
    by (simp add: to_double_def b)
  then show ?thesis
    by (simp add: normalizeTTL_def match_ttl_def toLowerCase_def js_trim_def is_space_def
        is_digit_def lower_char_def parseInt_def v number_of_def)
qed

text \<open>
  Claim C8, as the code has it. \<open>normalizeTTL\<close> is a total function (it never fails). A
  finite negative number goes to 0 and a finite non-negative number to itself. A string is
  trimmed of surrounding white space first; if what is left matches the grammar
  \<open>^(\d+)(ms|s|m|h|d)?$\<close> case-insensitively, the result is the value times the multiplier
  of the unit (ms 1, s 1000, m 60000, h 3600000, d 86400000, no unit 1) in double
  arithmetic: the digits are rounded to a double and so is the product, which is the
  value times the multiplier itself whenever that is at most \<open>2 ^ 53\<close> (above, it need not
  be: \<open>"9007199254740993"\<close> gives 9007199254740992); if it does not match, the result is
  60000. Non-finite numbers, \<open>undefined\<close>, \<open>null\<close> and every other type go to 60000. The
  examples of the specification hold.
\<close>

theorem normalizeTTL_mapping:
  "normalizeTTL (TNumber (Finite r)) = Finite (if r < 0 then 0 else r)
   \<and> (ttl_grammar (js_trim t) = Some (ds, u) \<and> digits_value ds * unit_multiplier u \<le> 2 ^ 53 \<longrightarrow>
        normalizeTTL (TString t) = Finite (of_nat (digits_value ds * unit_multiplier u)))
   \<and> (ttl_grammar (js_trim t) = Some (ds, u) \<longrightarrow>
        normalizeTTL (TString t)
          = number_of (if u = [] \<or> u = ''ms'' then to_double (digits_value ds)
                       else times (to_double (digits_value ds)) (unit_multiplier u)))
   \<and> (ttl_grammar (js_trim t) = None \<longrightarrow> normalizeTTL (TString t) = Finite 60000)
   \<and> normalizeTTL (TNumber NaN) = Finite 60000
   \<and> normalizeTTL (TNumber PosInfinity) = Finite 60000
   \<and> normalizeTTL (TNumber NegInfinity) = Finite 60000
   \<and> normalizeTTL TUndefined = Finite 60000
   \<and> normalizeTTL TNull = Finite 60000
   \<and> normalizeTTL (TBoolean b) = Finite 60000
   \<and> normalizeTTL (TObject v) = Finite 60000
   \<and> normalizeTTL (TNumber (Finite (-5))) = Finite 0
   \<and> normalizeTTL (TNumber (Finite 500)) = Finite 500
   \<and> normalizeTTL (TString ''500ms'') = Finite 500
   \<and> normalizeTTL (TString ''5m'') = Finite 300000
   \<and> normalizeTTL (TString ''2d'') = Finite 172800000
   \<and> normalizeTTL (TString ''60000'') = Finite 60000
   \<and> normalizeTTL (TString ''bogus'') = Finite 60000
   \<and> normalizeTTL (TString ''9007199254740993'') = Finite 9007199254740992"
proof -
  have exact: "ttl_grammar (js_trim t) = Some (ds, u) \<and> digits_value ds * unit_multiplier u \<le> 2 ^ 53 \<longrightarrow>
        normalizeTTL (TString t) = Finite (of_nat (digits_value ds * unit_multiplier u))"
    using normalizeTTL_exact [of t ds u] by (simp add: ttl_grammar_def)
  have strings: "(ttl_grammar (js_trim t) = Some (ds, u) \<longrightarrow>
        normalizeTTL (TString t)
          = number_of (if u = [] \<or> u = ''ms'' then to_double (digits_value ds)
                       else times (to_double (digits_value ds)) (unit_multiplier u)))
     \<and> (ttl_grammar (js_trim t) = None \<longrightarrow> normalizeTTL (TString t) = Finite 60000)"
    using normalizeTTL_match [of t ds u]
    by (simp add: normalizeTTL_def ttl_grammar_def DEFAULT_TTL_def parseInt_def)
  have others: "normalizeTTL (TNumber (Finite r)) = Finite (if r < 0 then 0 else r)
     \<and> normalizeTTL (TNumber NaN) = Finite 60000
     \<and> normalizeTTL (TNumber PosInfinity) = Finite 60000
     \<and> normalizeTTL (TNumber NegInfinity) = Finite 60000
     \<and> normalizeTTL TUndefined = Finite 60000
     \<and> normalizeTTL TNull = Finite 60000
     \<and> normalizeTTL (TBoolean b) = Finite 60000
     \<and> normalizeTTL (TObject v) = Finite 60000"
    by (simp add: normalizeTTL_def DEFAULT_TTL_def)
  from exact strings others show ?thesis
    by (simp only: normalizeTTL_examples normalizeTTL_rounds simp_thms)
qed

theorem normalizeTTL_mapping_witness:
  "ttl_grammar (js_trim '' 5M '') = Some (''5'', ''m'')
   \<and> digits_value ''5'' * unit_multiplier ''m'' \<le> 2 ^ 53
   \<and> normalizeTTL (TString '' 5M '') = Finite 300000
   \<and> ttl_grammar (js_trim ''bogus'') = None
   \<and> normalizeTTL (TString ''bogus'') = Finite 60000
   \<and> normalizeTTL (TNumber (Finite (-5))) = Finite 0"
proof -
  have g: "ttl_grammar (js_trim '' 5M '') = Some (''5'', ''m'')" by (simp add: ttl_eval)
  have v: "digits_value ''5'' * unit_multiplier ''m'' = 300000" by (simp add: ttl_eval)
  have b: "ttl_grammar (js_trim ''bogus'') = None" by (simp add: ttl_eval)
  show ?thesis
    using g v b normalizeTTL_mapping [of "-5" "'' 5M ''" "''5''" "''m''"]
      normalizeTTL_mapping [of 0 "''bogus''" "[]" "[]"]
    by simp
qed

text \<open>
  The claim as stated sends every string that does not match the grammar to 60000. The
  string \<open>" 5m "\<close> does not match it (the pattern is anchored at both ends), and the code,
  which trims first, returns 300000.
\<close>

theorem normalizeTTL_untrimmed_counterexample:
  "\<not> (\<forall>t. ttl_grammar t = None \<longrightarrow> normalizeTTL (TString t) = Finite 60000)"
proof
  assume a: "\<forall>t. ttl_grammar t = None \<longrightarrow> normalizeTTL (TString t) = Finite 60000"
  have "ttl_grammar '' 5m '' = None" by (simp add: ttl_eval)
  with a have "normalizeTTL (TString '' 5m '') = Finite 60000" by blast
  moreover have "normalizeTTL (TString '' 5m '') = Finite 300000"
    by (simp add: ttl_eval to_double_exact)
  ultimately show False by simp
qed

section \<open>Properties of the write-argument parser\<close>

text \<open>
  Claim C9, as the code has it. For an object write argument the nested \<open>options\<close> object
  comes first: when the argument has an \<open>options\<close> property of type object, that property
  is the options record, whether or not a recognised key (\<open>session\<close>, \<open>upsert\<close>,
  \<open>writeConcern\<close>, \<open>runValidators\<close>) stands at top level. Only without a nested options
  object does a recognised key make the whole argument the options record. The fields
  \<open>invalidateKeys\<close> and \<open>invalidatePrefixes\<close> are extracted in every case.
\<close>

theorem parseWriteArg_nested_options_first:
  "(has_prop ''options'' (JObj kvs) \<and> typeof_object (get_prop (JObj kvs) ''options'') \<longrightarrow>
      options (parseWriteArg (JObj kvs)) = get_prop (JObj kvs) ''options'')
   \<and> (\<not> (has_prop ''options'' (JObj kvs) \<and> typeof_object (get_prop (JObj kvs) ''options''))
        \<and> recognized_key (JObj kvs) \<longrightarrow>
      options (parseWriteArg (JObj kvs)) = JObj kvs)
   \<and> invalidateKeys (parseWriteArg (JObj kvs)) =
        (if has_prop ''invalidateKeys'' (JObj kvs) then get_prop (JObj kvs) ''invalidateKeys''
         else JUndefined)
   \<and> invalidatePrefixes (parseWriteArg (JObj kvs)) =
        (if has_prop ''invalidatePrefixes'' (JObj kvs) then get_prop (JObj kvs) ''invalidatePrefixes''
         else JUndefined)"
  by (simp add: parseWriteArg_def is_string_or_array_def)

theorem parseWriteArg_nested_options_first_witness:
  "options (parseWriteArg (JObj [(''options'', JObj [(''new'', JBool True)]),
       (''session'', JStr ''S''), (''invalidateKeys'', JStr ''k'')])) = JObj [(''new'', JBool True)]
   \<and> invalidateKeys (parseWriteArg (JObj [(''options'', JObj [(''new'', JBool True)]),
       (''session'', JStr ''S''), (''invalidateKeys'', JStr ''k'')])) = JStr ''k''
   \<and> options (parseWriteArg (JObj [(''session'', JStr ''S''), (''invalidateKeys'', JStr ''k'')]))
       = JObj [(''session'', JStr ''S''), (''invalidateKeys'', JStr ''k'')]"
  using parseWriteArg_nested_options_first
      [of "[(''options'', JObj [(''new'', JBool True)]), (''session'', JStr ''S''),
            (''invalidateKeys'', JStr ''k'')]"]
    parseWriteArg_nested_options_first [of "[(''session'', JStr ''S''), (''invalidateKeys'', JStr ''k'')]"]
  by (simp add: recognized_key_def)

text \<open>
  The claim as stated gives the flat branch priority. For
  \<open>{options: {new: true}, session: "S"}\<close> the code returns the nested object, not the
  whole argument.
\<close>

theorem parseWriteArg_flat_priority_counterexample:
  "\<not> (\<forall>kvs. has_prop ''options'' (JObj kvs) \<and> typeof_object (get_prop (JObj kvs) ''options'')
          \<and> recognized_key (JObj kvs) \<longrightarrow> options (parseWriteArg (JObj kvs)) = JObj kvs)"
proof
  assume a: "\<forall>kvs. has_prop ''options'' (JObj kvs) \<and> typeof_object (get_prop (JObj kvs) ''options'')
          \<and> recognized_key (JObj kvs) \<longrightarrow> options (parseWriteArg (JObj kvs)) = JObj kvs"
  let ?kvs = "[(''options'', JObj [(''new'', JBool True)]), (''session'', JStr ''S'')]"
  have "has_prop ''options'' (JObj ?kvs) \<and> typeof_object (get_prop (JObj ?kvs) ''options'')
          \<and> recognized_key (JObj ?kvs)"
    by (simp add: recognized_key_def)
  with a have "options (parseWriteArg (JObj ?kvs)) = JObj ?kvs" by blast
  then show False
    by (simp add: parseWriteArg_def is_string_or_array_def)
qed

section \<open>Properties of the cache wrapper\<close>

lemma run_uncached_metrics: "METRICS (snd (run_uncached runFn w)) = METRICS w"
  by (simp add: run_uncached_def split: prod.split sum.split)
lemma lookup_or_run_metrics: "METRICS (snd (lookup_or_run cache ck cif t runFn w)) = METRICS w"
  by (simp add: lookup_or_run_def Let_def split: prod.split sum.split)
lemma withCache_metrics:
  "METRICS (snd (withCache cache fnName h args cacheOpts runFn w)) = METRICS w"
  by (simp add: withCache_def run_uncached_metrics lookup_or_run_metrics Let_def split: prod.split)

lemma normalize_result_not_nullish: "normalize_result res \<noteq> JUndefined \<and> normalize_result res \<noteq> JNull"
  by (cases res) (auto simp: normalize_result_def ok_def)

lemma withCache_built_key:
  assumes "enabled opts = JUndefined \<or> truthy (enabled opts)" "key opts = JUndefined \<or> key opts = JNull"
    "buildCacheKey fnName h args = JObj [(''status'', JBool True), (''data'', JStr k)]"
  shows "withCache cache fnName h args (Some opts) runFn w =
     lookup_or_run cache (JStr k)
       (case cacheIf opts of Some f \<Rightarrow> f | None \<Rightarrow> (\<lambda>r. get_prop r ''status'' = JBool True))
       (normalizeTTL (if ttl opts = TUndefined then TNumber (Finite DEFAULT_TTL) else ttl opts)) runFn w"
  using assms by (auto simp: withCache_def destructure_def Let_def)

lemma withCache_explicit_key:
  assumes "enabled opts = JBool True" "key opts = JStr k"
  shows "withCache cache fnName h args (Some opts) runFn w =
     lookup_or_run cache JUndefined
       (case cacheIf opts of Some f \<Rightarrow> f | None \<Rightarrow> (\<lambda>r. get_prop r ''status'' = JBool True))
       (normalizeTTL (if ttl opts = TUndefined then TNumber (Finite DEFAULT_TTL) else ttl opts)) runFn w"
  using assms by (simp add: withCache_def destructure_def Let_def)
lemma hash_fold_brackets: "foldl hash_step 5381 ''[]'' = 5862883"
  by (simp add: hash_step_def)
lemma radix36_brackets: "to_radix 36 5862883 = ''3hntv''"
  by (simp add: to_radix.simps digit_char_def)
lemma unat_brackets: "unat (5862883 :: 32 word) = 5862883" by simp
lemma hash_brackets: "hash ''[]'' = ''3hntv''"
  by (simp only: hash_def hash_fold_brackets radix36_brackets unat_brackets)
lemma ser_empty_array: "stableStringify [HArray []] (HRef 0) = JObj [(''status'', JBool True), (''data'', JStr ''[]'')]"
  by (simp add: stableStringify_def deref_def)
lemma key_users:
  "buildCacheKey ''getOne'' [] [HStr ''users''] = JObj [(''status'', JBool True), (''data'', JStr ''getOne:users:3hntv'')]"
  by (simp add: buildCacheKey_def ser_empty_array hash_brackets)

text \<open>
  Claim C2, as the code has it, with caching enabled and no explicit key, on an adapter
  that answers at once: \<open>get\<close> returns the entry itself or \<open>undefined\<close> or \<open>null\<close>, not a
  promise of it. Suppose the key is built (the first argument is a string and the rest
  serialises), the lookup misses, the producer returns, \<open>put\<close> returns and a \<open>get\<close> after it
  gives back what was put. Then the first call runs the producer once and returns its
  result normalised to an envelope; \<open>cacheIf\<close> (by default \<open>status === true\<close>) is evaluated
  on that envelope, and only if it holds is the envelope stored, by one \<open>put\<close> under the
  key with the normalised TTL: otherwise the adapter is left as the lookup left it. If it
  was stored, a second call returns the same envelope whatever producer it is given, and
  the producer is not run (the caller's state is as the first call left it). If it was
  not stored and the lookup misses again, the second call runs the producer again.
\<close>

theorem withCache_second_call_hits:
  fixes w :: "('s, 'u) world"
  assumes en: "enabled opts = JUndefined \<or> truthy (enabled opts)"
    and nokey: "key opts = JUndefined \<or> key opts = JNull"
    and built: "buildCacheKey fnName h args = JObj [(''status'', JBool True), (''data'', JStr k)]"
    and miss: "cache_get cache (JStr k) (store w) = (Inr hit0, s1)" "hit0 = JUndefined \<or> hit0 = JNull"
    and run: "runFn (user w) = (Inr res, u)"
    and env: "env = normalize_result res"
    and accept: "accept = (case cacheIf opts of Some f \<Rightarrow> f env | None \<Rightarrow> get_prop env ''status'' = JBool True)"
    and ttlMs: "ttlMs = normalizeTTL (if ttl opts = TUndefined then TNumber (Finite 60000) else ttl opts)"
    and put: "accept \<longrightarrow> cache_put cache (JStr k) env ttlMs s1 = (Inr p, s2)"
    and hit: "accept \<longrightarrow> cache_get cache (JStr k) s2 = (Inr env, s3)"
    and again: "\<not> accept \<longrightarrow> cache_get cache (JStr k) s1 = (Inr hit1, s4) \<and> (hit1 = JUndefined \<or> hit1 = JNull)"
    and w1: "w1 = w\<lparr>store := (if accept then s2 else s1), user := u\<rparr>"
  shows "withCache cache fnName h args (Some opts) runFn w = (Inr env, w1)
     \<and> (accept \<longrightarrow> withCache cache fnName h args (Some opts) runFn2 w1 = (Inr env, w1\<lparr>store := s3\<rparr>))
     \<and> (\<not> accept \<longrightarrow> user (snd (withCache cache fnName h args (Some opts) runFn2 w1)) = snd (runFn2 u))"
proof -
  define cif where "cif = (case cacheIf opts of Some f \<Rightarrow> f | None \<Rightarrow> (\<lambda>r. get_prop r ''status'' = JBool True))"
  have acc: "accept = cif env"
    unfolding accept cif_def by (simp split: option.split)
  have wc: "withCache cache fnName h args (Some opts) f v
      = lookup_or_run cache (JStr k) cif ttlMs f v" for f and v :: "('s, 'u) world"
    unfolding cif_def ttlMs DEFAULT_TTL_def [symmetric] by (rule withCache_built_key [OF en nokey built])
  have first: "withCache cache fnName h args (Some opts) runFn w = (Inr env, w1)"
  proof (cases accept)
    case True
    with put have "cache_put cache (JStr k) env ttlMs s1 = (Inr p, s2)" by simp
    with True miss run show ?thesis
      unfolding wc by (auto simp: lookup_or_run_def Let_def env [symmetric] acc [symmetric] w1)
  next
    case False
    with miss run show ?thesis
      unfolding wc by (auto simp: lookup_or_run_def Let_def env [symmetric] acc [symmetric] w1)
  qed
  have second: "withCache cache fnName h args (Some opts) runFn2 w1 = (Inr env, w1\<lparr>store := s3\<rparr>)"
    if accept
  proof -
    from that hit have g: "cache_get cache (JStr k) (store w1) = (Inr env, s3)"
      by (simp add: w1)
    have "env \<noteq> JUndefined" "env \<noteq> JNull"
      using normalize_result_not_nullish [of res] by (simp_all add: env)
    with g show ?thesis
      unfolding wc by (simp add: lookup_or_run_def)
  qed
  have third: "user (snd (withCache cache fnName h args (Some opts) runFn2 w1)) = snd (runFn2 u)"
    if "\<not> accept"
  proof -
    from that again have g: "cache_get cache (JStr k) (store w1) = (Inr hit1, s4)"
        "hit1 = JUndefined \<or> hit1 = JNull" "user w1 = u"
      by (simp_all add: w1)
    show ?thesis
      unfolding wc using g
      by (auto simp: lookup_or_run_def Let_def split: prod.split sum.split)
  qed
  from first second third show ?thesis by blast
qed

theorem withCache_second_call_hits_witness:
  "(let opts = \<lparr>enabled = JBool True, key = JUndefined, ttl = TString ''1m'', cacheIf = None\<rparr>;
        w0 = init_world [] 1 (0::nat);
        (r1, w1) = withCache (mem_cache []) ''getOne'' [] [HStr ''users''] (Some opts) (counting (JStr ''doc'')) w0;
        (r2, w2) = withCache (mem_cache []) ''getOne'' [] [HStr ''users''] (Some opts) (counting (JStr ''doc'')) w1
    in r1 = Inr (ok (JStr ''doc'')) \<and> r2 = r1 \<and> user w2 = 1
       \<and> store w1 = [(JStr ''getOne:users:3hntv'', ok (JStr ''doc''), Finite 60000)])"
proof -
  let ?opts = "\<lparr>enabled = JBool True, key = JUndefined, ttl = TString ''1m'', cacheIf = None\<rparr>"
  let ?w0 = "init_world [] 1 (0::nat) :: (mem_store, nat) world"
  let ?k = "''getOne:users:3hntv''"
  let ?env = "ok (JStr ''doc'')"
  let ?s = "[(JStr ?k, ?env, Finite 60000)] :: mem_store"
  let ?w1 = "?w0\<lparr>store := (if True then ?s else []), user := 1\<rparr>"
  have en: "enabled ?opts = JUndefined \<or> truthy (enabled ?opts)" by simp
  have nokey: "key ?opts = JUndefined \<or> key ?opts = JNull" by simp
  have miss: "cache_get (mem_cache []) (JStr ?k) (store ?w0) = (Inr JUndefined, [])"
    by (simp add: init_world_def mem_cache_def)
  have run: "counting (JStr ''doc'') (user ?w0) = (Inr (JStr ''doc''), 1)"
    by (simp add: counting_def init_world_def)
  have env: "?env = normalize_result (JStr ''doc'')"
    by (simp add: normalize_result_def is_boolean_def)
  have accept: "True = (case cacheIf ?opts of Some f \<Rightarrow> f ?env | None \<Rightarrow> get_prop ?env ''status'' = JBool True)"
    by (simp add: ok_def)
  have ttl: "Finite 60000 = normalizeTTL (if ttl ?opts = TUndefined then TNumber (Finite 60000) else ttl ?opts)"
    by (simp add: ttl_eval to_double_exact)
  have put: "True \<longrightarrow> cache_put (mem_cache []) (JStr ?k) ?env (Finite 60000) [] = (Inr (JBool True), ?s)"
    by (simp add: mem_cache_def)
  have hit: "True \<longrightarrow> cache_get (mem_cache []) (JStr ?k) ?s = (Inr ?env, ?s)"
    by (simp add: mem_cache_def)
  have again: "\<not> True \<longrightarrow> cache_get (mem_cache []) (JStr ?k) [] = (Inr JUndefined, [])
      \<and> (JUndefined = JUndefined \<or> JUndefined = JNull)"
    by simp
  show ?thesis
    using withCache_second_call_hits [of ?opts "''getOne''" "[]" "[HStr ''users'']" ?k
        "mem_cache []" ?w0 JUndefined "[]" "counting (JStr ''doc'')" "JStr ''doc''" 1 ?env True
        "Finite 60000" "JBool True" ?s ?s JUndefined "[]" ?w1 "counting (JStr ''doc'')",
        OF en nokey key_users miss _ run env accept ttl put hit again refl]
    by (simp add: Let_def init_world_def)
qed

text \<open>
  The claim as stated holds for every producer. For a producer that returns a failure
  envelope, the default \<open>cacheIf\<close> rejects it, nothing is stored, and two successive
  calls run the producer twice: the call counter ends at 2.
\<close>

theorem withCache_failed_result_counterexample:
  "(let opts = \<lparr>enabled = JBool True, key = JUndefined, ttl = TUndefined, cacheIf = None\<rparr>;
        w0 = init_world [] 1 (0::nat);
        (r1, w1) = withCache (mem_cache []) ''getOne'' [] [HStr ''users''] (Some opts)
                     (counting (fail_env (JErr ''down''))) w0;
        (r2, w2) = withCache (mem_cache []) ''getOne'' [] [HStr ''users''] (Some opts)
                     (counting (fail_env (JErr ''down''))) w1
    in user w2 = 2 \<and> store w1 = [])"
  by (simp add: withCache_built_key [OF _ _ key_users] lookup_or_run_def mem_cache_def Let_def
      init_world_def counting_def normalize_result_def fail_env_def is_boolean_def)


text \<open>
  Claim C3 fails on the code. With \<open>cacheOpts.key\<close> a string, \<open>k\<close> is that string,
  \<open>k.status\<close> is \<open>undefined\<close> and the cache key \<open>k.data\<close> is \<open>undefined\<close>: lookup and store
  go under \<open>undefined\<close>, not under the given string (the key builder is indeed not
  consulted). Two reads with different explicit keys share one entry: the second returns
  what the first stored.
\<close>

theorem withCache_explicit_key_unused:
  "(let w0 = init_world [] 1 ();
        (r1, w1) = withCache (mem_cache []) ''getMany'' [] [HStr ''orders'']
                     (Some \<lparr>enabled = JBool True, key = JStr ''orders:paid:list:v1'', ttl = TUndefined, cacheIf = None\<rparr>)
                     (\<lambda>u. (Inr (ok (JStr ''orders'')), u)) w0;
        (r2, w2) = withCache (mem_cache []) ''getMany'' [] [HStr ''users'']
                     (Some \<lparr>enabled = JBool True, key = JStr ''users:all:v1'', ttl = TUndefined, cacheIf = None\<rparr>)
                     (\<lambda>u. (Inr (ok (JStr ''users'')), u)) w1
    in map fst (store w1) = [JUndefined] \<and> r2 = Inr (ok (JStr ''orders'')))"
  by (simp add: withCache_explicit_key lookup_or_run_def mem_cache_def Let_def
      init_world_def normalize_result_def ok_def is_boolean_def)


text \<open>
  Claim C4 fails on the code. \<open>withCache\<close> never writes \<open>METRICS\<close>: on a hit, on a miss and
  on a store alike, the counters \<open>hits\<close>, \<open>misses\<close> and \<open>puts\<close> are what they were.
\<close>

theorem withCache_counters_untouched:
  "hits (METRICS (snd (withCache cache fnName h args cacheOpts runFn w))) = hits (METRICS w)
   \<and> misses (METRICS (snd (withCache cache fnName h args cacheOpts runFn w))) = misses (METRICS w)
   \<and> puts (METRICS (snd (withCache cache fnName h args cacheOpts runFn w))) = puts (METRICS w)"
  by (simp add: withCache_metrics)

section \<open>Properties of the invalidation\<close>

lemma del_each_mem:
  "del_each (mem_cache broken) ks (s, n) =
     (filter (\<lambda>e. fst e \<notin> set ks \<or> fst e \<in> set broken) s,
      n + length (filter (\<lambda>k. k \<notin> set broken) ks))"
proof (induction ks arbitrary: s n)
  case Nil
  then show ?case by simp
next
  case (Cons k ks)
  show ?case
  proof (cases "k \<in> set broken")
    case True
    then have "del_each (mem_cache broken) (k # ks) (s, n) = del_each (mem_cache broken) ks (s, n)"
      by (simp add: mem_cache_def)
    also have "\<dots> = (filter (\<lambda>e. fst e \<notin> set ks \<or> fst e \<in> set broken) s,
        n + length (filter (\<lambda>k. k \<notin> set broken) ks))"
      by (rule Cons.IH)
    also have "filter (\<lambda>e. fst e \<notin> set ks \<or> fst e \<in> set broken) s
        = filter (\<lambda>e. fst e \<notin> set (k # ks) \<or> fst e \<in> set broken) s"
      using True by (intro filter_cong) auto
    finally show ?thesis using True by simp
  next
    case False
    then have "del_each (mem_cache broken) (k # ks) (s, n)
        = del_each (mem_cache broken) ks (filter (\<lambda>e. fst e \<noteq> k) s, n + 1)"
      by (simp add: mem_cache_def)
    also have "\<dots> = (filter (\<lambda>e. fst e \<notin> set ks \<or> fst e \<in> set broken) (filter (\<lambda>e. fst e \<noteq> k) s),
        n + 1 + length (filter (\<lambda>k. k \<notin> set broken) ks))"
      by (rule Cons.IH)
    also have "filter (\<lambda>e. fst e \<notin> set ks \<or> fst e \<in> set broken) (filter (\<lambda>e. fst e \<noteq> k) s)
        = filter (\<lambda>e. fst e \<notin> set (k # ks) \<or> fst e \<in> set broken) s"
      using False by (auto intro: filter_cong)
    finally show ?thesis using False by simp
  qed
qed

lemma del_prefixes_mem:
  "del_prefixes (mem_cache broken) (JArr keys) ps (s, n) =
     Inr (filter (\<lambda>e. fst e \<in> set broken \<or> \<not> (\<exists>p \<in> set ps. fst e \<in> set (matching keys p))) s,
          n + sum_list (map (\<lambda>p. length (filter (\<lambda>k. k \<notin> set broken) (matching keys p))) ps))"
proof (induction ps arbitrary: s n)
  case Nil
  then show ?case by simp
next
  case (Cons p ps)
  have "del_prefixes (mem_cache broken) (JArr keys) (p # ps) (s, n)
      = del_prefixes (mem_cache broken) (JArr keys) ps
          (filter (\<lambda>e. fst e \<notin> set (matching keys p) \<or> fst e \<in> set broken) s,
           n + length (filter (\<lambda>k. k \<notin> set broken) (matching keys p)))"
    by (simp add: iterate_def del_each_mem)
  also have "\<dots> = Inr (filter (\<lambda>e. fst e \<in> set broken \<or> \<not> (\<exists>p \<in> set ps. fst e \<in> set (matching keys p)))
                     (filter (\<lambda>e. fst e \<notin> set (matching keys p) \<or> fst e \<in> set broken) s),
          n + length (filter (\<lambda>k. k \<notin> set broken) (matching keys p))
            + sum_list (map (\<lambda>p. length (filter (\<lambda>k. k \<notin> set broken) (matching keys p))) ps))"
    by (rule Cons.IH)
  also have "filter (\<lambda>e. fst e \<in> set broken \<or> \<not> (\<exists>p \<in> set ps. fst e \<in> set (matching keys p)))
                     (filter (\<lambda>e. fst e \<notin> set (matching keys p) \<or> fst e \<in> set broken) s)
     = filter (\<lambda>e. fst e \<in> set broken \<or> \<not> (\<exists>q \<in> set (p # ps). fst e \<in> set (matching keys q))) s"
    by (auto intro: filter_cong)
  finally show ?case by (simp add: add.assoc)
qed

lemma js_Set_acc:
  "list_all is_primitive xs \<Longrightarrow> distinct acc \<Longrightarrow>
   distinct (foldl (\<lambda>acc x. if is_primitive x \<and> x \<in> set acc then acc else acc @ [x]) acc xs)
   \<and> set (foldl (\<lambda>acc x. if is_primitive x \<and> x \<in> set acc then acc else acc @ [x]) acc xs)
       = set acc \<union> set xs"
  by (induction xs arbitrary: acc) auto

lemma js_Set_distinct:
  "list_all is_primitive xs \<Longrightarrow> distinct (js_Set xs) \<and> set (js_Set xs) = set xs"
  using js_Set_acc [of xs "[]"] by (simp add: js_Set_def)

lemma invalidateCache_mem:
  fixes w :: "(mem_store, 'u) world"
  assumes t: "truthy input"
    and ks: "ks = (if is_string_or_array input then as_array input
                   else if typeof_object input \<and> truthy (get_prop input ''keys'')
                     then as_array (get_prop input ''keys'')
                   else [])"
    and ps: "ps = (if \<not> is_string_or_array input \<and> typeof_object input
                        \<and> truthy (get_prop input ''prefixes'')
                     then as_array (get_prop input ''prefixes'')
                   else [])"
  shows "invalidateCache (mem_cache broken) input w = swept broken ks ps w"
proof -
  define E where "E = js_Set (filter truthy ks)"
  define P where "P = filter truthy ps"
  define s1 where "s1 = filter (\<lambda>e. fst e \<notin> set E \<or> fst e \<in> set broken) (store w)"
  define n where "n = length (filter (\<lambda>k. k \<notin> set broken) E)
              + sum_list (map (\<lambda>p. length (filter (\<lambda>k. k \<notin> set broken) (matching (map fst s1) p))) P)"
  define F where "F = filter (\<lambda>e. fst e \<in> set broken \<or>
                    (fst e \<notin> set E \<and> \<not> (\<exists>p \<in> set P. startsWith (js_String (fst e)) (js_String p))))
                  (store w)"
  have pass1: "del_each (mem_cache broken) E (store w, 0)
      = (s1, length (filter (\<lambda>k. k \<notin> set broken) E))"
    by (simp add: del_each_mem s1_def)
  have keys: "cache_keys (mem_cache broken) s1 = (Inr (JArr (map fst s1)), s1)"
    by (simp add: mem_cache_def)
  have final: "filter (\<lambda>e. fst e \<in> set broken \<or> \<not> (\<exists>p \<in> set P. fst e \<in> set (matching (map fst s1) p))) s1 = F"
    unfolding s1_def filter_filter F_def
    by (rule filter_cong) (auto simp: matching_def)
  have result: "invalidateCache (mem_cache broken) input w
      = (Inr (invalidated n), w\<lparr>store := F,
            METRICS := (METRICS w)\<lparr>invalidations := invalidations (METRICS w) + n\<rparr>\<rparr>)"
  proof (cases "ps = []")
    case True
    then have P: "P = []" by (simp add: P_def)
    with final have s1: "s1 = F" by simp
    from P have n: "n = length (filter (\<lambda>k. k \<notin> set broken) E)" by (simp add: n_def)
    show ?thesis
      using True pass1 t unfolding s1 n
      by (simp add: invalidateCache_def Let_def ks [symmetric] ps [symmetric] E_def [symmetric])
  next
    case False
    have "del_prefixes (mem_cache broken) (JArr (map fst s1)) P
            (s1, length (filter (\<lambda>k. k \<notin> set broken) E)) = Inr (F, n)"
      by (simp only: del_prefixes_mem final n_def)
    then show ?thesis
      using False pass1 keys t
      by (simp add: invalidateCache_def Let_def ks [symmetric] ps [symmetric]
          E_def [symmetric] P_def [symmetric])
  qed
  show ?thesis
    unfolding swept_def Let_def using result unfolding F_def n_def s1_def P_def E_def .
qed


text \<open>
  Claim C6, as the code has it, for every input of \<open>invalidateCache\<close> on the in-memory
  adapter, which answers at once. A falsy input invalidates nothing. A string is one
  exact key and an array a list of exact keys; an object gives its exact keys in \<open>keys\<close> and
  its prefixes in \<open>prefixes\<close>, each an array or one value, a falsy one standing for none;
  any other input gives none. The exact keys are the truthy ones (an empty string is
  dropped), de-duplicated in a set; each is deleted on its own, a deletion that throws is
  skipped and the rest go on. Then, for each truthy prefix (an empty prefix is dropped),
  every key that the adapter lists after the exact-key pass and that starts with the
  prefix is deleted. A key is removed from the adapter exactly when its deletion does not
  throw and it is an exact key or starts with one of the prefixes. The count is the number
  of deletions that did not throw: one per distinct exact key, present or not, plus one
  per prefix and listed key that starts with it, so a key that starts with two prefixes is
  counted twice, while a key deleted as an exact key is no longer listed and is not
  counted again for a prefix. \<open>METRICS.cache.invalidations\<close> grows by the same count.
\<close>

theorem invalidateCache_counts_and_deletes:
  fixes w :: "(mem_store, 'u) world"
  shows "invalidateCache (mem_cache broken) input w =
     (if \<not> truthy input then (Inr (invalidated 0), w)
      else case input of
          JStr s \<Rightarrow> swept broken [input] [] w
        | JArr xs \<Rightarrow> swept broken xs [] w
        | JObj kvs \<Rightarrow>
            swept broken
              (if truthy (get_prop input ''keys'') then as_array (get_prop input ''keys'') else [])
              (if truthy (get_prop input ''prefixes'') then as_array (get_prop input ''prefixes'') else [])
              w
        | _ \<Rightarrow> swept broken [] [] w)
     \<and> (list_all is_primitive ks \<longrightarrow>
          distinct (js_Set (filter truthy ks)) \<and> set (js_Set (filter truthy ks)) = set (filter truthy ks))"
proof -
  have "list_all is_primitive (filter truthy ks)" if "list_all is_primitive ks"
    using that by (simp add: list_all_iff)
  then have dedup: "list_all is_primitive ks \<longrightarrow>
      distinct (js_Set (filter truthy ks)) \<and> set (js_Set (filter truthy ks)) = set (filter truthy ks)"
    using js_Set_distinct [of "filter truthy ks"] by blast
  have call: "invalidateCache (mem_cache broken) input w =
     (if \<not> truthy input then (Inr (invalidated 0), w)
      else case input of
          JStr s \<Rightarrow> swept broken [input] [] w
        | JArr xs \<Rightarrow> swept broken xs [] w
        | JObj kvs \<Rightarrow>
            swept broken
              (if truthy (get_prop input ''keys'') then as_array (get_prop input ''keys'') else [])
              (if truthy (get_prop input ''prefixes'') then as_array (get_prop input ''prefixes'') else [])
              w
        | _ \<Rightarrow> swept broken [] [] w)"
  proof (cases "truthy input")
    case False
    then show ?thesis by (simp add: invalidateCache_def)
  next
    case True
    show ?thesis
      unfolding invalidateCache_mem [OF True refl refl] using True
      by (cases input) (simp_all add: is_string_or_array_def as_array_def)
  qed
  from call dedup show ?thesis by (rule conjI)
qed

theorem invalidateCache_counts_and_deletes_witness:
  "invalidateCache (mem_cache [JStr ''x:2''])
     (JObj [(''keys'', JArr [JStr ''a'', JStr ''a'', JStr [], JStr ''zzz'']),
            (''prefixes'', JArr [JStr ''x:'', JStr ''x:1'', JStr []])])
     (init_world [(JStr ''x:1'', JNum 1, Finite 60000), (JStr ''x:2'', JNum 2, Finite 60000),
                  (JStr ''y:1'', JNum 3, Finite 60000), (JStr ''a'', JNum 4, Finite 60000)] 1 ())
   = (Inr (invalidated 4),
      (init_world [(JStr ''x:2'', JNum 2, Finite 60000), (JStr ''y:1'', JNum 3, Finite 60000)] 1 ())
        \<lparr>METRICS := \<lparr>hits = 0, misses = 0, puts = 0, invalidations = 4, perOp = []\<rparr>\<rparr>)
   \<and> store (snd (invalidateCache (mem_cache []) (JObj [(''keys'', JArr [JStr ''a''])])
        (init_world [(JStr ''a'', JNum 1, Finite 60000), (JStr ''ab'', JNum 2, Finite 60000)] 1 ())))
       = [(JStr ''ab'', JNum 2, Finite 60000)]
   \<and> store (snd (invalidateCache (mem_cache []) (JObj [(''prefixes'', JArr [JStr ''x:''])])
        (init_world [(JStr ''x:1'', JNum 1, Finite 60000), (JStr ''y:x:'', JNum 2, Finite 60000),
                     (JStr ''x:'', JNum 3, Finite 60000)] 1 ())))
       = [(JStr ''y:x:'', JNum 2, Finite 60000)]
   \<and> fst (invalidateCache (mem_cache []) (JStr ''a'')
        (init_world [(JStr ''a'', JNum 1, Finite 60000)] 1 ())) = Inr (invalidated 1)
   \<and> list_all is_primitive [JStr ''a'', JStr ''a'', JStr [], JStr ''zzz'']
   \<and> js_Set (filter truthy [JStr ''a'', JStr ''a'', JStr [], JStr ''zzz'']) = [JStr ''a'', JStr ''zzz'']"
  using invalidateCache_counts_and_deletes [of "[JStr ''x:2'']"
      "JObj [(''keys'', JArr [JStr ''a'', JStr ''a'', JStr [], JStr ''zzz'']),
            (''prefixes'', JArr [JStr ''x:'', JStr ''x:1'', JStr []])]"
      "init_world [(JStr ''x:1'', JNum 1, Finite 60000), (JStr ''x:2'', JNum 2, Finite 60000),
                  (JStr ''y:1'', JNum 3, Finite 60000), (JStr ''a'', JNum 4, Finite 60000)] 1 ()"
      "[JStr ''a'', JStr ''a'', JStr [], JStr ''zzz'']"]
    invalidateCache_counts_and_deletes [of "[]" "JObj [(''keys'', JArr [JStr ''a''])]"
      "init_world [(JStr ''a'', JNum 1, Finite 60000), (JStr ''ab'', JNum 2, Finite 60000)] 1 ()" "[]"]
    invalidateCache_counts_and_deletes [of "[]" "JObj [(''prefixes'', JArr [JStr ''x:''])]"
      "init_world [(JStr ''x:1'', JNum 1, Finite 60000), (JStr ''y:x:'', JNum 2, Finite 60000),
                     (JStr ''x:'', JNum 3, Finite 60000)] 1 ()" "[]"]
    invalidateCache_counts_and_deletes [of "[]" "JStr ''a''"
      "init_world [(JStr ''a'', JNum 1, Finite 60000)] 1 ()" "[]"]
  by (simp add: swept_def Let_def js_Set_def is_primitive_def matching_def startsWith_def
      init_world_def as_array_def eval_nat_numeral)


text \<open>
  The claim as stated counts a key twice when both an exact entry and a prefix match it,
  and deletes for every prefix the keys that start with it. With \<open>"x:1"\<close> cached,
  \<open>{keys: ["x:1"], prefixes: ["x:"]}\<close> returns a count of 1; and the prefix \<open>""\<close>, with
  which every key starts, deletes nothing.
\<close>

theorem invalidateCache_double_count_counterexample:
  "fst (invalidateCache (mem_cache [])
          (JObj [(''keys'', JArr [JStr ''x:1'']), (''prefixes'', JArr [JStr ''x:''])])
          (init_world [(JStr ''x:1'', JNum 1, Finite 60000)] 1 ())) = Inr (invalidated 1)
   \<and> startsWith ''a'' []
   \<and> store (snd (invalidateCache (mem_cache []) (JObj [(''prefixes'', JArr [JStr []])])
          (init_world [(JStr ''a'', JNum 1, Finite 60000)] 1 ()))) = [(JStr ''a'', JNum 1, Finite 60000)]"
  by (simp add: invalidateCache_def is_string_or_array_def as_array_def Let_def js_Set_def
      is_primitive_def matching_def startsWith_def init_world_def mem_cache_def iterate_def)

section \<open>Properties of the transaction wrapper\<close>

lemma recordDb_fields:
  "events (recordDb n s w) = events w" "sessions_started (recordDb n s w) = sessions_started w"
  "logger (recordDb n s w) = logger w" "logged (recordDb n s w) = logged w"
  "now (recordDb n s w) = now w" "db_calls (recordDb n s w) = db_calls w"
  "store (recordDb n s w) = store w" "user (recordDb n s w) = user w"
  by (simp_all add: recordDb_def Let_def)

lemma session_withTransaction_fields:
  assumes "session_withTransaction d work session opts w = (r, w')"
  shows "events w' = events w @ [TransactionBegun session opts (now w)]"
    and "sessions_started w' = sessions_started w" and "logger w' = logger w"
    and "logged w' = logged w" and "now w \<le> now w'"
  using assms
  by (auto simp: session_withTransaction_def Let_def split: prod.splits sum.splits option.splits)

text \<open>The loop begins at least one and at most \<open>maxAttempts - attempt\<close> transactions, all on
  the session and with the options given, the first at once and each no later than
  \<open>maxDurationMs\<close> after the start; it opens and closes no session and logs nothing; what
  it returns inside is an envelope.\<close>

lemma tx_loop_invariant:
  "tx_loop d work session opts maxRetries startTime attempt w = (r, w') \<Longrightarrow>
   (\<exists>times. events w' = events w @ map (TransactionBegun session opts) times
      \<and> length times \<le> maxAttempts - attempt
      \<and> (\<forall>t \<in> set times. now w \<le> t \<and> t \<le> startTime + maxDurationMs)
      \<and> (attempt < maxAttempts \<and> now w \<le> startTime + maxDurationMs \<longrightarrow> times \<noteq> [] \<and> hd times = now w))
   \<and> sessions_started w' = sessions_started w \<and> logger w' = logger w
   \<and> logged w' = logged w
   \<and> (\<forall>env. r = Inr env \<longrightarrow> is_envelope env)"
proof (induction d work session opts maxRetries startTime attempt w arbitrary: r w' rule: tx_loop.induct)
  case (1 d work session txnOptions maxRetries startTime attempt w)
  show ?case
  proof (cases "attempt \<ge> maxAttempts \<or> now w - startTime > maxDurationMs")
    case True
    with "1.prems" have "r = Inl retry_limit_error" "w' = w" by (auto simp: tx_loop.simps)
    moreover from True have "\<not> (attempt < maxAttempts \<and> now w \<le> startTime + maxDurationMs)" by auto
    ultimately show ?thesis by simp
  next
    case False
    obtain a w1 where sw: "session_withTransaction d work session txnOptions w = (a, w1)"
      by (cases "session_withTransaction d work session txnOptions w")
    note f = session_withTransaction_fields [OF sw]
    from False have bound: "attempt < maxAttempts" "now w \<le> startTime + maxDurationMs" by auto
    have one: "\<exists>times. events w1 = events w @ map (TransactionBegun session txnOptions) times
      \<and> length times \<le> maxAttempts - attempt
      \<and> (\<forall>t \<in> set times. now w \<le> t \<and> t \<le> startTime + maxDurationMs)
      \<and> (attempt < maxAttempts \<and> now w \<le> startTime + maxDurationMs \<longrightarrow> times \<noteq> [] \<and> hd times = now w)"
      using f(1) bound by (intro exI [of _ "[now w]"]) simp
    show ?thesis
    proof (cases a)
      case (Inr result)
      with "1.prems" False sw have "r = Inr (ok result)" "w' = recordDb ''withTransaction'' startTime w1"
        by (simp_all add: tx_loop.simps)
      with f one show ?thesis by (simp add: recordDb_fields ok_def)
    next
      case (Inl err)
      show ?thesis
      proof (cases "js_less attempt maxRetries")
        case True
        with "1.prems" False sw Inl
        have rec: "tx_loop d work session txnOptions maxRetries startTime (attempt + 1) w1 = (r, w')"
          by (simp add: tx_loop.simps)
        from "1.IH" [OF False sw [symmetric] Inl True rec]
        obtain times where n: "events w' = events w1 @ map (TransactionBegun session txnOptions) times"
            "length times \<le> maxAttempts - (attempt + 1)"
            "\<forall>t \<in> set times. now w1 \<le> t \<and> t \<le> startTime + maxDurationMs"
          and rest: "sessions_started w' = sessions_started w1" "logger w' = logger w1"
            "logged w' = logged w1" "\<forall>env. r = Inr env \<longrightarrow> is_envelope env"
          by blast
        have "events w' = events w @ map (TransactionBegun session txnOptions) (now w # times)"
          using n(1) f(1) by simp
        moreover have "length (now w # times) \<le> maxAttempts - attempt"
          using n(2) bound(1) by simp
        moreover have "\<forall>t \<in> set (now w # times). now w \<le> t \<and> t \<le> startTime + maxDurationMs"
          using n(3) bound(2) f(5) by auto
        moreover have "now w # times \<noteq> [] \<and> hd (now w # times) = now w" by simp
        ultimately have "\<exists>times. events w' = events w @ map (TransactionBegun session txnOptions) times
            \<and> length times \<le> maxAttempts - attempt
            \<and> (\<forall>t \<in> set times. now w \<le> t \<and> t \<le> startTime + maxDurationMs)
            \<and> (attempt < maxAttempts \<and> now w \<le> startTime + maxDurationMs \<longrightarrow> times \<noteq> [] \<and> hd times = now w)"
          by blast
        with rest f show ?thesis by simp
      next
        case False
        with "1.prems" \<open>\<not> (attempt \<ge> maxAttempts \<or> now w - startTime > maxDurationMs)\<close> sw Inl
        have "r = Inl err" "w' = w1" by (simp_all add: tx_loop.simps)
        with f one show ?thesis by simp
      qed
    qed
  qed
qed

lemma failing_attempt:
  assumes "\<forall>session u. \<exists>err ms u'. work session u = (Inl err, ms, u') \<and> ms \<le> 15000"
  shows "\<exists>err w1. session_withTransaction d work session opts w = (Inl err, w1)
           \<and> now w1 \<le> now w + 15000 \<and> length (events w1) = Suc (length (events w))"
proof -
  from assms obtain err ms u' where "work session (user w) = (Inl err, ms, u')" "ms \<le> 15000"
    by blast
  then show ?thesis
    by (simp add: session_withTransaction_def Let_def)
qed

lemma tx_loop_fail_2:
  assumes f: "\<forall>session u. \<exists>err ms u'. work session u = (Inl err, ms, u') \<and> ms \<le> 15000"
    and t: "now w \<le> startTime + 30000"
  shows "\<exists>err w'. tx_loop d work session opts (Finite 2) startTime 2 w = (Inl err, w')
           \<and> length (events w') = length (events w) + 1"
proof -
  from failing_attempt [OF f, of d session opts w]
  obtain err w1 where a: "session_withTransaction d work session opts w = (Inl err, w1)"
      "length (events w1) = Suc (length (events w))"
    by blast
  from t have nt: "\<not> now w - startTime > 30000" by simp
  have "tx_loop d work session opts (Finite 2) startTime 2 w = (Inl err, w1)"
    using nt a(1) by (subst tx_loop.simps) (simp add: maxAttempts_def maxDurationMs_def js_less_def)
  with a(2) show ?thesis by simp
qed

lemma tx_loop_fail_1:
  assumes f: "\<forall>session u. \<exists>err ms u'. work session u = (Inl err, ms, u') \<and> ms \<le> 15000"
    and t: "now w \<le> startTime + 15000"
  shows "\<exists>err w'. tx_loop d work session opts (Finite 2) startTime 1 w = (Inl err, w')
           \<and> length (events w') = length (events w) + 2"
proof -
  from failing_attempt [OF f, of d session opts w]
  obtain err w1 where a: "session_withTransaction d work session opts w = (Inl err, w1)"
      "now w1 \<le> now w + 15000" "length (events w1) = Suc (length (events w))"
    by blast
  from a(2) t have "now w1 \<le> startTime + 30000" by simp
  from tx_loop_fail_2 [OF f this, of d session opts]
  obtain err2 w2 where b: "tx_loop d work session opts (Finite 2) startTime 2 w1 = (Inl err2, w2)"
      "length (events w2) = length (events w1) + 1"
    by blast
  from t have nt: "\<not> now w - startTime > 30000" by simp
  have "tx_loop d work session opts (Finite 2) startTime 1 w = (Inl err2, w2)"
    using nt a(1) b(1)
    by (subst tx_loop.simps) (simp add: maxAttempts_def maxDurationMs_def js_less_def numeral_2_eq_2)
  with a(3) b(2) show ?thesis by simp
qed

lemma tx_loop_fail_0:
  assumes f: "\<forall>session u. \<exists>err ms u'. work session u = (Inl err, ms, u') \<and> ms \<le> 15000"
    and t: "now w \<le> startTime"
  shows "\<exists>err w'. tx_loop d work session opts (Finite 2) startTime 0 w = (Inl err, w')
           \<and> length (events w') = length (events w) + 3"
proof -
  from failing_attempt [OF f, of d session opts w]
  obtain err w1 where a: "session_withTransaction d work session opts w = (Inl err, w1)"
      "now w1 \<le> now w + 15000" "length (events w1) = Suc (length (events w))"
    by blast
  from a(2) t have "now w1 \<le> startTime + 15000" by simp
  from tx_loop_fail_1 [OF f this, of d session opts]
  obtain err2 w2 where b: "tx_loop d work session opts (Finite 2) startTime 1 w1 = (Inl err2, w2)"
      "length (events w2) = length (events w1) + 2"
    by blast
  from t have nt: "\<not> now w - startTime > 30000" by simp
  have "tx_loop d work session opts (Finite 2) startTime 0 w = (Inl err2, w2)"
    using nt a(1) b(1)
    by (subst tx_loop.simps) (simp add: maxAttempts_def maxDurationMs_def js_less_def)
  with a(3) b(2) show ?thesis by simp
qed

text \<open>The options that \<open>withTransaction\<close> resolves from its two arguments, and the call on
  a store that opens a session: the loop runs on the state with the session opened, its
  error goes to \<open>fail\<close>, and \<open>endSession\<close> is called last.\<close>

lemma withTransaction_unfold:
  assumes fn: "(case workOrObj of Work wk \<Rightarrow> wk | WorkObj wk t0 \<Rightarrow> wk) = Fn work"
    and t: "t = (case (case workOrObj of Work wk \<Rightarrow> txOptions
                       | WorkObj wk t0 \<Rightarrow> (case t0 of Some x \<Rightarrow> Some x | None \<Rightarrow> txOptions)) of
                   Some x \<Rightarrow> x
                 | None \<Rightarrow> \<lparr>readConcern = JUndefined, writeConcern = JUndefined,
                             readPreference = JUndefined, maxCommitRetries = None\<rparr>)"
    and start: "startSession_error d = None"
    and loop: "tx_loop d work (sessions_started w) (build_txnOptions t)
            (case maxCommitRetries t of Some m \<Rightarrow> m | None \<Rightarrow> Finite 0)
            (now w) 0
            (w\<lparr>sessions_started := Suc (sessions_started w),
               events := events w @ [SessionStarted (sessions_started w)]\<rparr>) = (r, w2)"
    and caught: "(r', w3) = (case r of Inr env \<Rightarrow> (Inr env, w2) | Inl err \<Rightarrow> fail err ''withTransaction'' w2)"
  shows "withTransaction d workOrObj txOptions w =
     (case endSession_error d of Some e \<Rightarrow> Inl e | None \<Rightarrow> r',
      w3\<lparr>events := events w3 @ [SessionEnded (sessions_started w)]\<rparr>)"
proof (cases workOrObj)
  case (Work wk)
  with fn have wk: "wk = Fn work" by simp
  show ?thesis
    using start loop caught [symmetric] t unfolding Work wk
    by (simp add: withTransaction_def startSession_def endSession_def Let_def split: option.split)
next
  case (WorkObj wk t0)
  with fn have wk: "wk = Fn work" by simp
  show ?thesis
    using start loop caught [symmetric] t unfolding WorkObj wk
    by (simp add: withTransaction_def startSession_def endSession_def Let_def split: option.split)
qed

lemma fail_fields:
  "events (snd (fail err ctx w)) = events w" "sessions_started (snd (fail err ctx w)) = sessions_started w"
  "logger (snd (fail err ctx w)) = logger w" "db_calls (snd (fail err ctx w)) = db_calls w"
  "store (snd (fail err ctx w)) = store w" "user (snd (fail err ctx w)) = user w"
  by (simp_all add: fail_def split: option.split)

lemma fail_quiet:
  "logger w err ctx = None \<Longrightarrow> fst (fail err ctx w) = Inr (fail_env err)"
  by (simp add: fail_def)

text \<open>
  Claim C5, as the code has it, for a work function, given as such or in an object
  \<open>{work, txOptions}\<close>, on a store that opens the session. What the store sees of the call
  is, in this order: the session opened, then at least one and at most 10 transactions
  begun on that session with the options built, whatever \<open>maxCommitRetries\<close> is, the first
  at once and none later than 30000 ms after the loop started (the deadline is tested at
  the top of each iteration only: an attempt that is running is not interrupted), and
  last, after every attempt and on every outcome, \<open>endSession\<close> on that session. With
  \<open>maxCommitRetries = 2\<close> and a work function that always throws, each attempt within
  15000 ms so that the deadline is not met, the work is run three times (retried exactly
  twice), and what is returned is a failure envelope. What is returned is an envelope
  whenever \<open>endSession\<close> and the logger do not throw; what \<open>endSession\<close> throws is thrown.
\<close>

theorem withTransaction_bounded_retries:
  fixes w :: "('s, 'u) world"
  assumes fn: "(case workOrObj of Work wk \<Rightarrow> wk | WorkObj wk t0 \<Rightarrow> wk) = Fn work"
    and t: "t = (case (case workOrObj of Work wk \<Rightarrow> txOptions
                       | WorkObj wk t0 \<Rightarrow> (case t0 of Some x \<Rightarrow> Some x | None \<Rightarrow> txOptions)) of
                   Some x \<Rightarrow> x
                 | None \<Rightarrow> \<lparr>readConcern = JUndefined, writeConcern = JUndefined,
                             readPreference = JUndefined, maxCommitRetries = None\<rparr>)"
    and start: "startSession_error d = None"
    and run: "withTransaction d workOrObj txOptions w = (r, w')"
  shows "\<exists>times.
       events w' = events w @ [SessionStarted (sessions_started w)]
                     @ map (TransactionBegun (sessions_started w) (build_txnOptions t)) times
                     @ [SessionEnded (sessions_started w)]
     \<and> 1 \<le> length times \<and> length times \<le> 10 \<and> hd times = now w
     \<and> (\<forall>x \<in> set times. now w \<le> x \<and> x \<le> now w + 30000)
     \<and> sessions_started w' = Suc (sessions_started w)
     \<and> (maxCommitRetries t = Some (Finite 2)
          \<and> (\<forall>session u. \<exists>err ms u'. work session u = (Inl err, ms, u') \<and> ms \<le> 15000)
        \<longrightarrow> length times = 3
            \<and> (endSession_error d = None \<and> (\<forall>err. logger w err ''withTransaction'' = None)
                 \<longrightarrow> (\<exists>err. r = Inr (fail_env err))))
     \<and> (endSession_error d = None \<and> (\<forall>err. logger w err ''withTransaction'' = None)
          \<longrightarrow> (\<exists>env. r = Inr env \<and> is_envelope env))
     \<and> (\<forall>e. endSession_error d = Some e \<longrightarrow> r = Inl e)"
proof -
  define sid where "sid = sessions_started w"
  define m where "m = (case maxCommitRetries t of Some m \<Rightarrow> m | None \<Rightarrow> Finite 0)"
  define w1 where "w1 = w\<lparr>sessions_started := Suc (sessions_started w),
               events := events w @ [SessionStarted (sessions_started w)]\<rparr>"
  obtain r0 w2 where loop:
    "tx_loop d work sid (build_txnOptions t) m (now w) 0 w1 = (r0, w2)"
    by (cases "tx_loop d work sid (build_txnOptions t) m (now w) 0 w1")
  define c where "c = (case r0 of Inr env \<Rightarrow> (Inr env, w2) | Inl err \<Rightarrow> fail err ''withTransaction'' w2)"
  have caught: "(fst c, snd c) = (case r0 of Inr env \<Rightarrow> (Inr env, w2) | Inl err \<Rightarrow> fail err ''withTransaction'' w2)"
    by (simp add: c_def)
  have res: "(r, w') = (case endSession_error d of Some e \<Rightarrow> Inl e | None \<Rightarrow> fst c,
      (snd c)\<lparr>events := events (snd c) @ [SessionEnded sid]\<rparr>)"
    using withTransaction_unfold [OF fn t start loop [unfolded m_def w1_def sid_def] caught] run
    by (simp add: sid_def)
  from tx_loop_invariant [OF loop]
  obtain times where inv: "events w2 = events w1 @ map (TransactionBegun sid (build_txnOptions t)) times"
      "length times \<le> maxAttempts - 0"
      "\<forall>x \<in> set times. now w1 \<le> x \<and> x \<le> now w + maxDurationMs"
      "0 < maxAttempts \<and> now w1 \<le> now w + maxDurationMs \<longrightarrow> times \<noteq> [] \<and> hd times = now w1"
      and inv2: "sessions_started w2 = sessions_started w1" "logger w2 = logger w1"
      "\<forall>env. r0 = Inr env \<longrightarrow> is_envelope env"
    by blast
  have c2: "events (snd c) = events w2" "sessions_started (snd c) = sessions_started w2"
    unfolding c_def by (cases r0; simp add: fail_fields)+
  have now1: "now w1 = now w" and log1: "logger w1 = logger w" by (simp_all add: w1_def)
  have ev: "events w' = events w @ [SessionStarted sid]
      @ map (TransactionBegun sid (build_txnOptions t)) times @ [SessionEnded sid]"
    using res c2(1) inv(1) by (simp add: w1_def sid_def)
  have nonempty: "times \<noteq> []" "hd times = now w"
    using inv(4) by (simp_all add: maxAttempts_def now1)
  then have len: "1 \<le> length times" "length times \<le> 10"
    using inv(2) by (cases times; simp add: maxAttempts_def)+
  have times: "\<forall>x \<in> set times. now w \<le> x \<and> x \<le> now w + 30000"
    using inv(3) by (simp add: now1 maxDurationMs_def)
  have sess: "sessions_started w' = Suc (sessions_started w)"
    using res c2(2) inv2(1) by (simp add: w1_def)
  have quiet: "\<exists>env. r = Inr env \<and> is_envelope env"
    if "endSession_error d = None \<and> (\<forall>err. logger w err ''withTransaction'' = None)"
  proof (cases r0)
    case (Inr env)
    with inv2(3) res that show ?thesis by (simp add: c_def)
  next
    case (Inl err)
    from that have "logger w2 err ''withTransaction'' = None" by (simp add: inv2(2) log1)
    then have "fst c = Inr (fail_env err)" unfolding c_def Inl by (simp add: fail_quiet)
    with res that show ?thesis by (simp add: fail_env_def)
  qed
  have loud: "\<forall>e. endSession_error d = Some e \<longrightarrow> r = Inl e"
    using res by simp
  have retried: "length times = 3
      \<and> (endSession_error d = None \<and> (\<forall>err. logger w err ''withTransaction'' = None)
            \<longrightarrow> (\<exists>err. r = Inr (fail_env err)))"
    if two: "maxCommitRetries t = Some (Finite 2)"
      and failing: "\<forall>session u. \<exists>err ms u'. work session u = (Inl err, ms, u') \<and> ms \<le> 15000"
  proof -
    from two have m2: "m = Finite 2" by (simp add: m_def)
    have "now w1 \<le> now w" by (simp add: w1_def)
    from tx_loop_fail_0 [OF failing this, of d sid "build_txnOptions t"]
    obtain err w3 where
      "tx_loop d work sid (build_txnOptions t) (Finite 2) (now w) 0 w1 = (Inl err, w3)"
      "length (events w3) = length (events w1) + 3"
      by blast
    with loop m2 have r0: "r0 = Inl err" and l: "length (events w2) = length (events w1) + 3" by simp_all
    from l inv(1) have three: "length times = 3" by simp
    have "\<exists>err. r = Inr (fail_env err)"
      if q: "endSession_error d = None \<and> (\<forall>err. logger w err ''withTransaction'' = None)"
    proof -
      from q have "logger w2 err ''withTransaction'' = None" by (simp add: inv2(2) log1)
      then have "fst c = Inr (fail_env err)" unfolding c_def r0 by (simp add: fail_quiet)
      with res q have "r = Inr (fail_env err)" by simp
      then show ?thesis by (rule exI)
    qed
    with three show ?thesis by blast
  qed
  from ev len nonempty(2) times sess retried quiet loud show ?thesis
    unfolding sid_def by blast
qed

theorem withTransaction_bounded_retries_witness:
  "(let d = \<lparr>startSession_error = None, commit_error = (\<lambda>n. None), endSession_error = None\<rparr>;
        t = \<lparr>readConcern = JStr ''snapshot'', writeConcern = JUndefined,
             readPreference = JUndefined, maxCommitRetries = Some (Finite 2)\<rparr>;
        X = withTransaction d (WorkObj (Fn (\<lambda>session u. (Inl (JErr ''boom''), 100, u))) (Some t)) None
              (init_world () 1000 ())
    in startSession_error d = None \<and> endSession_error d = None
       \<and> length (events (snd X)) = 5 \<and> hd (events (snd X)) = SessionStarted 0
       \<and> last (events (snd X)) = SessionEnded 0 \<and> (\<exists>err. fst X = Inr (fail_env err)))"
proof -
  let ?d = "\<lparr>startSession_error = None, commit_error = (\<lambda>n. None), endSession_error = None\<rparr>"
  let ?work = "\<lambda>(session::nat) (u::unit). (Inl (JErr ''boom'') :: jsval + jsval, 100::nat, u)"
  let ?t = "\<lparr>readConcern = JStr ''snapshot'', writeConcern = JUndefined,
                     readPreference = JUndefined, maxCommitRetries = Some (Finite 2)\<rparr>"
  let ?w = "init_world () 1000 () :: (unit, unit) world"
  let ?X = "withTransaction ?d (WorkObj (Fn ?work) (Some ?t)) None ?w"
  have run: "?X = (fst ?X, snd ?X)" by simp
  have fn: "(case WorkObj (Fn ?work) (Some ?t) of Work wk \<Rightarrow> wk | WorkObj wk t0 \<Rightarrow> wk) = Fn ?work"
    by simp
  have t: "?t = (case (case WorkObj (Fn ?work) (Some ?t) of Work wk \<Rightarrow> None
                       | WorkObj wk t0 \<Rightarrow> (case t0 of Some x \<Rightarrow> Some x | None \<Rightarrow> None)) of
                   Some x \<Rightarrow> x
                 | None \<Rightarrow> \<lparr>readConcern = JUndefined, writeConcern = JUndefined,
                             readPreference = JUndefined, maxCommitRetries = None\<rparr>)"
    by simp
  have s: "startSession_error ?d = None" by simp
  have failing: "\<forall>session u. \<exists>err ms u'. ?work session u = (Inl err, ms, u') \<and> ms \<le> 15000"
    by simp
  have quiet: "endSession_error ?d = None \<and> (\<forall>err. logger ?w err ''withTransaction'' = None)"
    by (simp add: init_world_def noopLogger_def)
  have two: "maxCommitRetries ?t = Some (Finite 2)" by simp
  from withTransaction_bounded_retries [OF fn t s run]
  obtain times where a: "events (snd ?X) = events ?w @ [SessionStarted (sessions_started ?w)]
                     @ map (TransactionBegun (sessions_started ?w) (build_txnOptions ?t)) times
                     @ [SessionEnded (sessions_started ?w)]"
    and b: "maxCommitRetries ?t = Some (Finite 2)
          \<and> (\<forall>session u. \<exists>err ms u'. ?work session u = (Inl err, ms, u') \<and> ms \<le> 15000)
        \<longrightarrow> length times = 3
            \<and> (endSession_error ?d = None \<and> (\<forall>err. logger ?w err ''withTransaction'' = None)
                 \<longrightarrow> (\<exists>err. fst ?X = Inr (fail_env err)))"
    by blast
  from b two failing quiet have c: "length times = 3" "\<exists>err. fst ?X = Inr (fail_env err)"
    by blast+
  from a c(1) have "length (events (snd ?X)) = 5" "hd (events (snd ?X)) = SessionStarted 0"
      "last (events (snd ?X)) = SessionEnded 0"
    by (simp_all add: init_world_def)
  with c(2) show ?thesis by (simp add: Let_def)
qed


text \<open>
  The claim as stated bounds the elapsed time by 30000 ms and retries a failing work
  exactly twice under \<open>maxCommitRetries = 2\<close>. A work function that throws after 40000 ms
  is run once: the call returns 40000 ms after the loop started, with the retry-limit
  error in a failure envelope and no retry made.
\<close>

theorem withTransaction_slow_work_counterexample:
  "(let X = withTransaction \<lparr>startSession_error = None, commit_error = (\<lambda>n. None), endSession_error = None\<rparr>
              (Work (Fn (\<lambda>session u. (Inl (JErr ''boom''), 40000, u))))
              (Some \<lparr>readConcern = JUndefined, writeConcern = JUndefined,
                     readPreference = JUndefined, maxCommitRetries = Some (Finite 2)\<rparr>)
              (init_world () 1000 ())
    in now (snd X) - 1000 = 40000
       \<and> events (snd X) = [SessionStarted 0, TransactionBegun 0 (JObj []) 1000, SessionEnded 0]
       \<and> fst X = Inr (fail_env retry_limit_error))"
  by (simp add: withTransaction_def startSession_def endSession_def fail_def Let_def init_world_def
      tx_loop.simps session_withTransaction_def maxAttempts_def maxDurationMs_def js_less_def
      build_txnOptions_def noopLogger_def)

section \<open>Properties of the upsert\<close>

lemma invalidateCache_db_calls: "db_calls (snd (invalidateCache cache input w)) = db_calls w"
  by (simp add: invalidateCache_def fail_fields Let_def split: prod.split sum.split)

lemma resolveModel_db_calls: "db_calls (snd (resolveModel e model w)) = db_calls w"
  by (simp add: resolveModel_def Let_def split: jsval.split sum.split prod.split option.split)

lemma map_of_obj_assign: "map_of (obj_assign kvs k v) k' = (if k' = k then Some v else map_of kvs k')"
  by (induction kvs) auto

lemma map_of_foldl_assign:
  "map_of (foldl (\<lambda>obj k. obj_assign obj k (f k)) target ks) k'
     = (if k' \<in> set ks then Some (f k') else map_of target k')"
  by (induction ks arbitrary: target) (auto simp: map_of_obj_assign)

lemma set_own_keys: "set (own_keys ks) = set ks"
  by (auto simp: own_keys_def)

text \<open>\<open>{ upsert: true, ...options }\<close> for an object: the properties of \<open>options\<close>, and
  \<open>upsert: true\<close> if it has none of that name.\<close>

lemma spread_object:
  "map_of (spread_into [(''upsert'', JBool True)] (JObj okvs)) k
     = (if k \<in> set (map fst okvs) then map_of okvs k
        else if k = ''upsert'' then Some (JBool True) else None)"
proof (cases "k \<in> set (map fst okvs)")
  case True
  then obtain v where "map_of okvs k = Some v"
    by (metis map_of_eq_None_iff not_Some_eq set_map)
  with True show ?thesis
    by (simp add: spread_into_def map_of_foldl_assign set_own_keys)
next
  case False
  then show ?thesis
    by (simp add: spread_into_def map_of_foldl_assign set_own_keys)
qed

lemma upsert_resolved_call:
  "db_calls (snd (upsert_resolved e cache M model rf rd rw w)) =
     db_calls w @ [if wantsDoc (upsert_opts (options (parseWriteArg rw))) \<and> has_findOneAndUpdate e M
                     then FindOneAndUpdate M rf rd (upsert_opts (options (parseWriteArg rw)))
                   else UpdateOne M rf rd (upsert_opts (options (parseWriteArg rw)))]"
proof -
  have i: "db_calls (snd (case invalidateCache cache input v of (i, w3) \<Rightarrow>
             (case i of Inl err \<Rightarrow> (Inl err, w3) | Inr x \<Rightarrow> (Inr (ok res), recordDb n s w3))))
           = db_calls v" for input res n s and v :: "('a, 'b) world"
  proof -
    obtain a w3 where c: "invalidateCache cache input v = (a, w3)"
      by (cases "invalidateCache cache input v")
    with invalidateCache_db_calls [of cache input v] have "db_calls w3 = db_calls v" by simp
    then show ?thesis unfolding c by (cases a) (simp_all add: recordDb_fields)
  qed
  show ?thesis
    by (simp add: upsert_resolved_def Let_def i recordDb_fields split: prod.split sum.split)
qed

lemma upsertOne_call:
  assumes "(model, rf, rd, rw) =
      (if typeof_object modelOrObj \<and> modelOrObj \<noteq> JNull
         then (get_prop modelOrObj ''model'', nullish_or (get_prop modelOrObj ''filter'') f,
               nullish_or (get_prop modelOrObj ''data'') dat,
               nullish_or (get_prop modelOrObj ''writeArg'') wa)
       else (modelOrObj, f, dat, wa))"
    and "resolveModel e model w = (Inr M, w1)"
  shows "db_calls (snd (upsertOne e cache modelOrObj f dat wa w)) =
     db_calls w @ [if wantsDoc (upsert_opts (options (parseWriteArg rw))) \<and> has_findOneAndUpdate e M
                     then FindOneAndUpdate M rf rd (upsert_opts (options (parseWriteArg rw)))
                   else UpdateOne M rf rd (upsert_opts (options (parseWriteArg rw)))]"
proof -
  from assms(2) have d: "db_calls w1 = db_calls w"
    using resolveModel_db_calls [of e model w] by simp
  have u: "upsertOne e cache modelOrObj f dat wa w =
     (case upsert_resolved e cache M model rf rd rw w1 of
             (Inl err, w2) \<Rightarrow> fail err ''upsertOne'' w2
           | (Inr env, w2) \<Rightarrow> (Inr env, w2))"
  proof -
    define isObj where "isObj = (typeof_object modelOrObj \<and> modelOrObj \<noteq> JNull)"
    have a: "(model, rf, rd, rw) =
      (if isObj
         then (get_prop modelOrObj ''model'', nullish_or (get_prop modelOrObj ''filter'') f,
               nullish_or (get_prop modelOrObj ''data'') dat,
               nullish_or (get_prop modelOrObj ''writeArg'') wa)
       else (modelOrObj, f, dat, wa))"
      using assms(1) unfolding isObj_def .
    show ?thesis
      unfolding upsertOne_def Let_def isObj_def [symmetric] using a assms(2)
      by (cases isObj) simp_all
  qed
  have "db_calls (snd (upsertOne e cache modelOrObj f dat wa w))
      = db_calls (snd (upsert_resolved e cache M model rf rd rw w1))"
    unfolding u by (simp add: fail_fields split: prod.split sum.split)
  then show ?thesis
    by (simp only: upsert_resolved_call d)
qed

text \<open>
  Claim C10. For a call in either form, with a model that resolves, \<open>upsertOne\<close> makes
  one call on the model, \<open>findOneAndUpdate\<close> if the options ask for the document and the
  model has it and \<open>updateOne\<close> otherwise, with the filter, the data and the options
  \<open>{upsert: true, ...options}\<close>, the user's options spread last: when the parsed options
  are an object, the options passed have every property of it with its value, and
  \<open>upsert: true\<close> only if it has no \<open>upsert\<close> property, and nothing else; when there are
  none, the options passed are \<open>{upsert: true}\<close>. So with \<open>upsert: false\<close> in the parsed
  options the operation runs without upsert, and with no \<open>upsert\<close> property in them it
  runs with upsert.
\<close>

theorem upsertOne_user_can_disable_upsert:
  fixes w :: "('s, 'u) world"
  assumes args: "(model, rf, rd, rw) =
      (if typeof_object modelOrObj \<and> modelOrObj \<noteq> JNull
         then (get_prop modelOrObj ''model'', nullish_or (get_prop modelOrObj ''filter'') f,
               nullish_or (get_prop modelOrObj ''data'') dat,
               nullish_or (get_prop modelOrObj ''writeArg'') wa)
       else (modelOrObj, f, dat, wa))"
    and resolved: "resolveModel e model w = (Inr M, w1)"
    and given: "user_options = options (parseWriteArg rw)"
  shows "\<exists>kvs.
       db_calls (snd (upsertOne e cache modelOrObj f dat wa w)) =
         db_calls w @ [if wantsDoc (JObj kvs) \<and> has_findOneAndUpdate e M
                         then FindOneAndUpdate M rf rd (JObj kvs)
                       else UpdateOne M rf rd (JObj kvs)]
     \<and> (\<forall>okvs. user_options = JObj okvs \<longrightarrow>
          (\<forall>k. map_of kvs k = (if k \<in> set (map fst okvs) then map_of okvs k
                               else if k = ''upsert'' then Some (JBool True) else None)))
     \<and> (user_options = JUndefined \<or> user_options = JNull \<longrightarrow> kvs = [(''upsert'', JBool True)])
     \<and> (\<forall>okvs. user_options = JObj okvs \<and> map_of okvs ''upsert'' = Some (JBool False) \<longrightarrow>
          get_prop (JObj kvs) ''upsert'' = JBool False)
     \<and> (\<forall>okvs. user_options = JObj okvs \<and> map_of okvs ''upsert'' = None \<longrightarrow>
          get_prop (JObj kvs) ''upsert'' = JBool True)"
proof -
  define kvs where "kvs = spread_into [(''upsert'', JBool True)] user_options"
  have o: "upsert_opts (options (parseWriteArg rw)) = JObj kvs"
    by (simp add: upsert_opts_def kvs_def given)
  have call: "db_calls (snd (upsertOne e cache modelOrObj f dat wa w)) =
         db_calls w @ [if wantsDoc (JObj kvs) \<and> has_findOneAndUpdate e M
                         then FindOneAndUpdate M rf rd (JObj kvs)
                       else UpdateOne M rf rd (JObj kvs)]"
    using upsertOne_call [OF args resolved] unfolding o .
  have merged: "\<forall>okvs. user_options = JObj okvs \<longrightarrow>
          (\<forall>k. map_of kvs k = (if k \<in> set (map fst okvs) then map_of okvs k
                               else if k = ''upsert'' then Some (JBool True) else None))"
    unfolding kvs_def using spread_object by blast
  have none: "user_options = JUndefined \<or> user_options = JNull \<longrightarrow> kvs = [(''upsert'', JBool True)]"
    unfolding kvs_def by (auto simp: spread_into_def)
  have off: "\<forall>okvs. user_options = JObj okvs \<and> map_of okvs ''upsert'' = Some (JBool False) \<longrightarrow>
          get_prop (JObj kvs) ''upsert'' = JBool False"
  proof (intro allI impI)
    fix okvs assume a: "user_options = JObj okvs \<and> map_of okvs ''upsert'' = Some (JBool False)"
    then have "''upsert'' \<in> set (map fst okvs)"
      by (metis map_of_eq_None_iff option.distinct(1) set_map)
    with a merged show "get_prop (JObj kvs) ''upsert'' = JBool False" by simp
  qed
  have on: "\<forall>okvs. user_options = JObj okvs \<and> map_of okvs ''upsert'' = None \<longrightarrow>
          get_prop (JObj kvs) ''upsert'' = JBool True"
  proof (intro allI impI)
    fix okvs assume a: "user_options = JObj okvs \<and> map_of okvs ''upsert'' = None"
    then have "''upsert'' \<notin> set (map fst okvs)"
      by (simp add: map_of_eq_None_iff)
    with a merged show "get_prop (JObj kvs) ''upsert'' = JBool True" by simp
  qed
  from call merged none off on show ?thesis by blast
qed

theorem upsertOne_user_can_disable_upsert_witness:
  "(let e = \<lparr>env_models_dir = None, app_root = ''/app'',
             require = (\<lambda>root dir name. Inr (Some name, [])),
             has_findOneAndUpdate = (\<lambda>M. True),
             db_exec = (\<lambda>call u. (Inr (JObj [(''matchedCount'', JNum 0), (''upsertedCount'', JNum 0)]), u))\<rparr>;
        w = init_world [] 1 ();
        wa = JObj [(''upsert'', JBool False), (''session'', JStr ''S'')];
        call = JObj [(''model'', JStr ''user''), (''filter'', JObj [(''sku'', JStr ''A'')]),
                     (''data'', JObj [(''stock'', JNum 1)]), (''writeArg'', wa)]
    in resolveModel e (JStr ''user'') w = (Inr ''users'', w\<lparr>MODELS_DIR := Some ''./models''\<rparr>)
       \<and> options (parseWriteArg wa) = wa
       \<and> (\<exists>kvs. db_calls (snd (upsertOne e (mem_cache []) call JUndefined JUndefined JUndefined w))
                  = [UpdateOne ''users'' (JObj [(''sku'', JStr ''A'')]) (JObj [(''stock'', JNum 1)]) (JObj kvs)]
               \<and> get_prop (JObj kvs) ''upsert'' = JBool False
               \<and> get_prop (JObj kvs) ''session'' = JStr ''S''))"
proof -
  let ?e = "\<lparr>env_models_dir = None, app_root = ''/app'',
             require = (\<lambda>root dir name. Inr (Some name, [])),
             has_findOneAndUpdate = (\<lambda>M. True),
             db_exec = (\<lambda>call u. (Inr (JObj [(''matchedCount'', JNum 0), (''upsertedCount'', JNum 0)]), u))\<rparr>
           :: unit environment"
  let ?w = "init_world [] 1 () :: (mem_store, unit) world"
  let ?okvs = "[(''upsert'', JBool False), (''session'', JStr ''S'')]"
  let ?wa = "JObj ?okvs"
  let ?f = "JObj [(''sku'', JStr ''A'')]"
  let ?d = "JObj [(''stock'', JNum 1)]"
  let ?call = "JObj [(''model'', JStr ''user''), (''filter'', ?f), (''data'', ?d), (''writeArg'', ?wa)]"
  have args: "(JStr ''user'', ?f, ?d, ?wa) =
      (if typeof_object ?call \<and> ?call \<noteq> JNull
         then (get_prop ?call ''model'', nullish_or (get_prop ?call ''filter'') JUndefined,
               nullish_or (get_prop ?call ''data'') JUndefined,
               nullish_or (get_prop ?call ''writeArg'') JUndefined)
       else (?call, JUndefined, JUndefined, JUndefined))"
    by (simp add: nullish_or_def)
  have resolved: "resolveModel ?e (JStr ''user'') ?w = (Inr ''users'', ?w\<lparr>MODELS_DIR := Some ''./models''\<rparr>)"
    by (simp add: resolveModel_def pluralizeName_def is_letter_def getModelsDir_def init_world_def Let_def)
  have p: "options (parseWriteArg ?wa) = ?wa"
    by (simp add: parseWriteArg_def is_string_or_array_def recognized_key_def)
  from upsertOne_user_can_disable_upsert [OF args resolved p [symmetric], of "mem_cache []"]
  obtain kvs where k: "db_calls (snd (upsertOne ?e (mem_cache []) ?call JUndefined JUndefined JUndefined ?w)) =
         db_calls ?w @ [if wantsDoc (JObj kvs) \<and> has_findOneAndUpdate ?e ''users''
                         then FindOneAndUpdate ''users'' ?f ?d (JObj kvs)
                       else UpdateOne ''users'' ?f ?d (JObj kvs)]"
    and m: "\<forall>okvs. ?wa = JObj okvs \<longrightarrow>
          (\<forall>k. map_of kvs k = (if k \<in> set (map fst okvs) then map_of okvs k
                               else if k = ''upsert'' then Some (JBool True) else None))"
    by blast
  from m have m': "\<forall>k. map_of kvs k = (if k \<in> set (map fst ?okvs) then map_of ?okvs k
                               else if k = ''upsert'' then Some (JBool True) else None)"
    by blast
  have u: "get_prop (JObj kvs) ''upsert'' = JBool False" "get_prop (JObj kvs) ''session'' = JStr ''S''"
      "get_prop (JObj kvs) ''new'' = JUndefined" "get_prop (JObj kvs) ''returnDocument'' = JUndefined"
    by (simp_all add: m')
  from k u have "db_calls (snd (upsertOne ?e (mem_cache []) ?call JUndefined JUndefined JUndefined ?w))
                  = [UpdateOne ''users'' ?f ?d (JObj kvs)]"
    by (simp add: wantsDoc_def init_world_def)
  with u have "\<exists>kvs. db_calls (snd (upsertOne ?e (mem_cache []) ?call JUndefined JUndefined JUndefined ?w))
                  = [UpdateOne ''users'' ?f ?d (JObj kvs)]
               \<and> get_prop (JObj kvs) ''upsert'' = JBool False
               \<and> get_prop (JObj kvs) ''session'' = JStr ''S''"
    by blast
  with resolved p show ?thesis by (simp only: Let_def simp_thms)
qed

section \<open>Properties of the stable serialiser\<close>





















lemma sort_ab: "sort [''b'', ''a''] = [''a'', ''b'']" and sort_ba: "sort [''a'', ''b''] = [''a'', ''b'']"
  by simp_all


end
